theory Spec2Isabelle
  imports Complex_Main "HOL-Library.AList" "HOL-Library.Log_Nat"
begin

section \<open>Pagination engine (Editor component)\<close>

text \<open>
  Strings are \<open>string\<close>, array indices, lengths and document positions are \<open>nat\<close>.
  A JavaScript number is an IEEE 754 double; a finite double is modelled by the rational it
  denotes, and every arithmetic operation rounds its exact result to the nearest double.
\<close>

subsection \<open>Double arithmetic\<close>

text \<open>Rounding to the nearest integer, ties to the even one.\<close>

definition round_half_even :: "rat \<Rightarrow> int" where
  "round_half_even x =
     (let f = \<lfloor>x\<rfloor>; r = x - of_int f
      in if r < 1 / 2 then f else if 1 / 2 < r then f + 1 else if even f then f else f + 1)"

text \<open>
  The distance between neighbouring doubles at a positive \<open>x\<close>.  For \<open>2 ^ (n - 1) \<le> x < 2 ^ n\<close>
  with \<open>n \<ge> 1\<close> it is \<open>2 ^ n / 2 ^ 53\<close> (\<open>floorlog 2\<close> of a positive integer is its number of
  bits); below 1 the exponent is found from \<open>1 / x\<close>, and the spacing stays at \<open>1 / 2 ^ 1074\<close>
  in the subnormal range.
\<close>

definition ulp :: "rat \<Rightarrow> rat" where
  "ulp x =
     (if 1 \<le> x then 2 ^ floorlog 2 (nat \<lfloor>x\<rfloor>) / 2 ^ 53
      else 1 / 2 ^ min 1074 (floorlog 2 (nat \<lceil>1 / x\<rceil> - 1) + 52))"

text \<open>
  The double nearest to \<open>x\<close>, ties to the even significand.  Overflow to \<open>Infinity\<close> is not
  represented: it needs a magnitude of \<open>2 ^ 1024\<close>, out of reach of heights computed from
  string lengths.
\<close>

definition to_double :: "rat \<Rightarrow> rat" where
  "to_double x =
     (if x = 0 then 0
      else sgn x * of_int (round_half_even (\<bar>x\<bar> / ulp \<bar>x\<bar>)) * ulp \<bar>x\<bar>)"

text \<open>The operators \<open>+\<close>, \<open>*\<close> and \<open>/\<close> on doubles.\<close>

definition js_add :: "rat \<Rightarrow> rat \<Rightarrow> rat" where
  "js_add a b = to_double (a + b)"

definition js_mul :: "rat \<Rightarrow> rat \<Rightarrow> rat" where
  "js_mul a b = to_double (a * b)"

definition js_div :: "rat \<Rightarrow> rat \<Rightarrow> rat" where
  "js_div a b = to_double (a / b)"

subsection \<open>Data model\<close>

text \<open>The plain object built per node in \<open>updatePages\<close> and posted to the workers:
  \<open>{ type, content, dual, pos }\<close>.\<close>

record element =
  type :: string
  content :: string
  dual :: bool
  pos :: nat

text \<open>\<open>node.attrs\<close> with the two attributes the component reads.\<close>

record attrs =
  attrs_type :: string
  attrs_dual :: bool

text \<open>
  A node as the pages hold it.  A ProseMirror node carries \<open>node.type.name\<close>; the object
  literal rebuilt from a worker's answer (\<open>{ attrs: {type, dual}, textContent }\<close>) has no
  \<open>type\<close> property, which is \<open>None\<close> here.
\<close>

record pm_node =
  type_name :: "string option"
  node_attrs :: attrs
  textContent :: string

text \<open>An entry of a page, \<open>{ node, pos }\<close>.\<close>

record page_entry =
  node :: pm_node
  entry_pos :: nat

text \<open>A page as a worker reports it, \<open>{ pageIndex, elements }\<close>.\<close>

record worker_page =
  pageIndex :: nat
  elements :: "element list"

text \<open>
  The document is seen through \<open>doc.descendants\<close> only: the sequence of \<open>(node, pos)\<close>
  pairs in the order the callback receives them.  A view is its document, or \<open>None\<close> when
  \<open>!view || !view.state\<close>.
\<close>

type_synonym doc = "(pm_node \<times> nat) list"
type_synonym view = "doc option"

text \<open>The React state the two pagination functions write.\<close>

record editor_state =
  pages :: "page_entry list list"
  processingPages :: bool

definition PAGE_HEIGHT :: rat where
  "PAGE_HEIGHT = 1122"

subsection \<open>Layout heuristic\<close>

text \<open>\<open>calculateElementHeight(node)\<close> of the component.  The literals \<open>1.5\<close> and \<open>1.2\<close> denote
  the doubles nearest to them; \<open>Math.ceil\<close> of a double is exact.\<close>

definition calculateElementHeight :: "pm_node \<Rightarrow> rat" where
  "calculateElementHeight n =
     (let baseHeight = 24;
          contentLength = rat_of_nat (length (textContent n));
          linesNeeded = of_int \<lceil>js_div contentLength 60\<rceil>;
          multiplier =
            (if attrs_type (node_attrs n) = ''scene_heading'' then to_double 1.5
             else if attrs_type (node_attrs n) = ''character'' then to_double 1.2
             else 1)
      in js_add (js_mul (js_mul baseHeight linesNeeded) multiplier) 12)"

text \<open>\<open>calculateElementHeight(element)\<close> inside the worker source; the content length is
  \<open>element.content ? element.content.length : 0\<close> (the empty string is falsy).\<close>

definition worker_calculateElementHeight :: "element \<Rightarrow> rat" where
  "worker_calculateElementHeight e =
     (let baseHeight = 24;
          contentLength = (if content e \<noteq> [] then rat_of_nat (length (content e)) else 0);
          linesNeeded = of_int \<lceil>js_div contentLength 60\<rceil>;
          multiplier =
            (if type e = ''scene_heading'' then to_double 1.5
             else if type e = ''character'' then to_double 1.2
             else 1)
      in js_add (js_mul (js_mul baseHeight linesNeeded) multiplier) 12)"

subsection \<open>The worker\<close>

text \<open>The message posted to a worker and its answer.\<close>

record worker_request =
  req_elements :: "element list"
  req_startIndex :: nat
  req_chunkSize :: nat
  req_pageHeight :: rat

datatype worker_response =
    Success "worker_page list" nat nat
  | Failure string nat nat

text \<open>
  The \<open>for\<close> loop of the worker over \<open>elements\<close>, with its four mutable variables
  \<open>processedPages\<close>, \<open>currentPage\<close>, \<open>currentPageHeight\<close> and \<open>pageIndex\<close> as accumulators.
\<close>

fun worker_loop ::
  "rat \<Rightarrow> element list \<Rightarrow> worker_page list \<Rightarrow> element list \<Rightarrow> rat \<Rightarrow> nat
     \<Rightarrow> worker_page list \<times> element list \<times> rat \<times> nat" where
  "worker_loop pageHeight [] processedPages currentPage currentPageHeight pIndex =
     (processedPages, currentPage, currentPageHeight, pIndex)"
| "worker_loop pageHeight (e # rest) processedPages currentPage currentPageHeight pIndex =
     (let elementHeight = worker_calculateElementHeight e in
      if js_add currentPageHeight elementHeight > pageHeight \<and> length currentPage > 0
      then worker_loop pageHeight rest
             (processedPages @ [\<lparr>pageIndex = pIndex, elements = currentPage\<rparr>])
             ([] @ [e]) (js_add 0 elementHeight) (pIndex + 1)
      else worker_loop pageHeight rest processedPages
             (currentPage @ [e]) (js_add currentPageHeight elementHeight) pIndex)"

text \<open>
  \<open>self.onmessage\<close>.  Nothing in the \<open>try\<close> block throws on a list of elements, so the
  answer is always the success message; \<open>Failure\<close> is what the \<open>catch\<close> would post.
\<close>

definition worker_onmessage :: "worker_request \<Rightarrow> worker_response" where
  "worker_onmessage m =
     (case worker_loop (req_pageHeight m) (req_elements m) [] [] 0 (req_startIndex m div 15) of
        (processedPages, currentPage, currentPageHeight, pIndex) \<Rightarrow>
          Success
            (if length currentPage > 0
             then processedPages @ [\<lparr>pageIndex = pIndex, elements = currentPage\<rparr>]
             else processedPages)
            (req_startIndex m) (req_chunkSize m))"

subsection \<open>Sequential fallback\<close>

text \<open>The callback of \<open>doc.descendants\<close> in \<open>fallbackUpdatePages\<close>, run over the document.\<close>

fun fallback_loop ::
  "doc \<Rightarrow> page_entry list list \<Rightarrow> page_entry list \<Rightarrow> rat
     \<Rightarrow> page_entry list list \<times> page_entry list \<times> rat" where
  "fallback_loop [] newPages currentPage currentPageHeight =
     (newPages, currentPage, currentPageHeight)"
| "fallback_loop ((n, p) # rest) newPages currentPage currentPageHeight =
     (if type_name n = Some ''screenplay_element'' then
        (let elementHeight = calculateElementHeight n in
         if js_add currentPageHeight elementHeight > PAGE_HEIGHT \<and> length currentPage > 0
         then fallback_loop rest (newPages @ [currentPage])
                ([] @ [\<lparr>node = n, entry_pos = p\<rparr>]) (js_add 0 elementHeight)
         else fallback_loop rest newPages
                (currentPage @ [\<lparr>node = n, entry_pos = p\<rparr>])
                (js_add currentPageHeight elementHeight))
      else fallback_loop rest newPages currentPage currentPageHeight)"

definition fallbackUpdatePages :: "view \<Rightarrow> editor_state \<Rightarrow> editor_state" where
  "fallbackUpdatePages v st =
     (case v of
        None \<Rightarrow> st
      | Some d \<Rightarrow>
          (case fallback_loop d [] [] 0 of
             (newPages, currentPage, currentPageHeight) \<Rightarrow>
               st\<lparr>pages := (if length currentPage > 0 then newPages @ [currentPage]
                              else newPages)\<rparr>))"

subsection \<open>Parallel path\<close>

text \<open>
  What a worker of the pool does with the chunk posted to it: it answers (its
  \<open>onmessage\<close> result arrives), nothing arrives within the 10 s timeout, or its \<open>onerror\<close>
  fires.  The pool \<open>paginationWorkersRef.current\<close> is the list of these behaviours, one per
  worker.
\<close>

datatype worker_behaviour = Responds | TimesOut | Errors

text \<open>One entry of the array \<open>Promise.allSettled\<close> resolves to.\<close>

datatype settled = Fulfilled "worker_page list" | Rejected string

text \<open>The \<open>doc.descendants\<close> callback of \<open>updatePages\<close> that fills \<open>allElements\<close>.\<close>

fun extract_elements :: "doc \<Rightarrow> element list" where
  "extract_elements [] = []"
| "extract_elements ((n, p) # rest) =
     (if type_name n = Some ''screenplay_element''
      then \<lparr>type = attrs_type (node_attrs n), content = textContent n,
            dual = attrs_dual (node_attrs n), pos = p\<rparr> # extract_elements rest
      else extract_elements rest)"

text \<open>\<open>Array.prototype.slice(start, end)\<close> for \<open>end \<le> length\<close>; empty when \<open>end \<le> start\<close>.\<close>

definition slice :: "'a list \<Rightarrow> nat \<Rightarrow> nat \<Rightarrow> 'a list" where
  "slice xs startIndex endIndex = take (endIndex - startIndex) (drop startIndex xs)"

text \<open>The promise built for worker \<open>i\<close>: how it settles.\<close>

definition worker_promise :: "worker_behaviour \<Rightarrow> worker_request \<Rightarrow> settled" where
  "worker_promise w m =
     (case w of
        TimesOut \<Rightarrow> Rejected ''Worker timeout''
      | Errors \<Rightarrow> Rejected ''error''
      | Responds \<Rightarrow>
          (case worker_onmessage m of
             Success ps s c \<Rightarrow> Fulfilled ps
           | Failure err s c \<Rightarrow> Rejected err))"

text \<open>The dispatch loop \<open>for (let i = 0; i < workers.length; i++)\<close>, from index \<open>i\<close> on; an
  empty chunk is skipped by \<open>continue\<close>.\<close>

fun dispatch ::
  "element list \<Rightarrow> nat \<Rightarrow> nat \<Rightarrow> worker_behaviour list \<Rightarrow> settled list" where
  "dispatch allElements chunkSize i [] = []"
| "dispatch allElements chunkSize i (w # ws) =
     (let startIndex = i * chunkSize;
          endIndex = min (startIndex + chunkSize) (length allElements);
          chunk = slice allElements startIndex endIndex
      in if length chunk = 0 then dispatch allElements chunkSize (i + 1) ws
         else worker_promise w
                \<lparr>req_elements = chunk, req_startIndex = startIndex,
                 req_chunkSize = length chunk, req_pageHeight = PAGE_HEIGHT\<rparr>
              # dispatch allElements chunkSize (i + 1) ws)"

text \<open>\<open>results.forEach\<close>: the pages of the fulfilled promises, in the order of the array.\<close>

fun combine_results :: "settled list \<Rightarrow> worker_page list" where
  "combine_results [] = []"
| "combine_results (Fulfilled ps # rs) = ps @ combine_results rs"
| "combine_results (Rejected err # rs) = combine_results rs"

text \<open>The object literal built for each element of a page in \<open>finalPages\<close>.\<close>

definition to_entry :: "element \<Rightarrow> page_entry" where
  "to_entry e =
     \<lparr>node = \<lparr>type_name = None,
              node_attrs = \<lparr>attrs_type = type e, attrs_dual = dual e\<rparr>,
              textContent = content e\<rparr>,
      entry_pos = pos e\<rparr>"

text \<open>
  \<open>updatePages\<close>.  \<open>Array.prototype.sort\<close> is stable, as is \<open>sort_key\<close>, and the comparator
  \<open>a.pageIndex - b.pageIndex\<close> orders by the key \<open>pageIndex\<close>.  \<open>Promise.allSettled\<close> never
  rejects and nothing else in the \<open>try\<close> block throws on a list of elements, so the \<open>catch\<close>
  branch (which calls \<open>fallbackUpdatePages\<close>) has no counterpart here; \<open>finally\<close> clears
  \<open>processingPages\<close>.
\<close>

definition updatePages :: "worker_behaviour list \<Rightarrow> view \<Rightarrow> editor_state \<Rightarrow> editor_state" where
  "updatePages workers v st =
     (case v of
        None \<Rightarrow> fallbackUpdatePages v st
      | Some d \<Rightarrow>
          if length workers = 0 then fallbackUpdatePages v st
          else
            (let allElements = extract_elements d in
             if length allElements = 0 then st\<lparr>pages := [], processingPages := False\<rparr>
             else
               (let chunkSize =
                      nat \<lceil>js_div (rat_of_nat (length allElements)) (rat_of_nat (length workers))\<rceil>;
                    results = dispatch allElements chunkSize 0 workers;
                    allPages = sort_key pageIndex (combine_results results);
                    finalPages = map (\<lambda>page. map to_entry (elements page)) allPages
                in st\<lparr>pages := finalPages, processingPages := False\<rparr>)))"

text \<open>The element a page entry stands for: the four fields \<open>updatePages\<close> extracts.\<close>

definition entry_element :: "page_entry \<Rightarrow> element" where
  "entry_element en =
     \<lparr>type = attrs_type (node_attrs (node en)), content = textContent (node en),
      dual = attrs_dual (node_attrs (node en)), pos = entry_pos en\<rparr>"

subsection \<open>Abstraction used in the proofs and statements\<close>

text \<open>
  Both loops are the same greedy packing, over different element types and height
  functions.  \<open>greedy h B xs cur ch\<close> packs \<open>xs\<close> with the page under construction \<open>cur\<close> of
  accumulated height \<open>ch\<close> and returns the pages closed from then on, the last one included.
\<close>

fun greedy :: "('a \<Rightarrow> rat) \<Rightarrow> rat \<Rightarrow> 'a list \<Rightarrow> 'a list \<Rightarrow> rat \<Rightarrow> 'a list list" where
  "greedy h B [] cur ch = (if cur = [] then [] else [cur])"
| "greedy h B (x # xs) cur ch =
     (if js_add ch (h x) > B \<and> cur \<noteq> [] then cur # greedy h B xs [x] (js_add 0 (h x))
      else greedy h B xs (cur @ [x]) (js_add ch (h x)))"

text \<open>Pages numbered consecutively from \<open>i\<close>, as the worker's \<open>pageIndex++\<close> numbers them.\<close>

fun number_pages :: "nat \<Rightarrow> element list list \<Rightarrow> worker_page list" where
  "number_pages i [] = []"
| "number_pages i (p # ps) = \<lparr>pageIndex = i, elements = p\<rparr> # number_pages (Suc i) ps"

text \<open>The entries of the screenplay elements of a document, in document order.\<close>

definition screenplay_entries :: "doc \<Rightarrow> page_entry list" where
  "screenplay_entries d =
     map (\<lambda>(n, p). \<lparr>node = n, entry_pos = p\<rparr>)
       (filter (\<lambda>(n, p). type_name n = Some ''screenplay_element'') d)"

text \<open>The layout heuristic in the words of the specification: base unit 24, line width 60,
  spacing 12, multiplier by type; the formula is evaluated in double arithmetic, operation
  by operation from left to right.\<close>

definition multiplier_spec :: "string \<Rightarrow> rat" where
  "multiplier_spec ty =
     (if ty = ''scene_heading'' then to_double (3 / 2)
      else if ty = ''character'' then to_double (6 / 5)
      else 1)"

definition height_spec :: "string \<Rightarrow> nat \<Rightarrow> rat" where
  "height_spec ty contentLength =
     js_add (js_mul (js_mul 24 (of_int \<lceil>js_div (rat_of_nat contentLength) 60\<rceil>))
               (multiplier_spec ty)) 12"

text \<open>A height as the layout heuristic returns it: a double not below 1.  A running total
  is 0 or such a number.\<close>

definition is_height :: "rat \<Rightarrow> bool" where
  "is_height c = (1 \<le> c \<and> to_double c = c)"

definition is_total :: "rat \<Rightarrow> bool" where
  "is_total c = (c = 0 \<or> is_height c)"

text \<open>The merge step in the words of the specification: the pages of the successful
  chunks, chunk by chunk in the order of the chunks' start indices.\<close>

definition merge_by_startIndex :: "(nat \<times> worker_page list) list \<Rightarrow> worker_page list" where
  "merge_by_startIndex chunks = concat (map snd (sort_key fst chunks))"

section \<open>Session relay (pages/api/socket.js)\<close>

subsection \<open>State\<close>

type_synonym socket_id = string

text \<open>A JSON object with string values, as a list of its properties.\<close>

type_synonym obj = "(string \<times> string) list"

text \<open>The two properties the join handler sets on the socket object; \<open>None\<close> is
  \<open>undefined\<close>.\<close>

record socket_props =
  sock_documentId :: "string option"
  sock_userId :: "string option"

text \<open>An entry of the \<open>current-users\<close> array.\<close>

record current_user =
  cu_socketId :: socket_id
  cu_userId :: "string option"
  cu_userInfo :: "obj option"

datatype message =
    UserJoined socket_id string obj
  | CurrentUsers "current_user list"
  | YjsUpdateMsg "nat list"
  | AwarenessUpdateMsg socket_id obj
  | UserLeft socket_id "string option"

text \<open>
  \<open>documentRooms\<close> and \<open>userAwareness\<close> are the two \<open>Map\<close>s of the handler; they are only
  read and written by key.  A \<open>Set\<close> of socket ids is a list without duplicates in insertion
  order.  \<open>sockets\<close> are the connected sockets with their properties, \<open>adapter\<close> is the room
  table of socket.io (room name to members; every socket is in the room of its own id),
  \<open>outbox\<close> the messages delivered so far, each with its receiver.
\<close>

record relay_state =
  documentRooms :: "string \<rightharpoonup> socket_id list"
  userAwareness :: "socket_id \<rightharpoonup> obj"
  sockets :: "(socket_id \<times> socket_props) list"
  adapter :: "string \<Rightarrow> socket_id list"
  outbox :: "(socket_id \<times> message) list"

definition relay_init :: relay_state where
  "relay_init =
     \<lparr>documentRooms = Map.empty, userAwareness = Map.empty, sockets = [],
      adapter = (\<lambda>r. []), outbox = []\<rparr>"

datatype event =
    Connection socket_id
  | JoinDocument socket_id string string obj
  | YjsUpdate socket_id string "nat list"
  | AwarenessUpdate socket_id string obj
  | Disconnect socket_id

subsection \<open>Primitives\<close>

definition set_add :: "'a \<Rightarrow> 'a list \<Rightarrow> 'a list" where
  "set_add x xs = (if x \<in> set xs then xs else xs @ [x])"

definition set_delete :: "'a \<Rightarrow> 'a list \<Rightarrow> 'a list" where
  "set_delete x xs = removeAll x xs"

text \<open>A string is truthy when it is not empty.\<close>

definition truthy :: "string \<Rightarrow> bool" where
  "truthy s = (s \<noteq> [])"

text \<open>\<open>socket.to(room).emit(\<dots>)\<close>: to every member of the room but the sender.\<close>

definition emit_to_room :: "socket_id \<Rightarrow> string \<Rightarrow> message \<Rightarrow> relay_state \<Rightarrow> relay_state" where
  "emit_to_room sid room msg st =
     st\<lparr>outbox := outbox st @ map (\<lambda>r. (r, msg)) (filter (\<lambda>r. r \<noteq> sid) (adapter st room))\<rparr>"

text \<open>\<open>socket.emit(\<dots>)\<close>: to the socket itself.\<close>

definition emit_to_socket :: "socket_id \<Rightarrow> message \<Rightarrow> relay_state \<Rightarrow> relay_state" where
  "emit_to_socket sid msg st = st\<lparr>outbox := outbox st @ [(sid, msg)]\<rparr>"

text \<open>The object literal \<open>{ userId, ...userInfo }\<close>: a \<open>userId\<close> property of \<open>userInfo\<close>
  overwrites the value in place.\<close>

definition awareness_object :: "string \<Rightarrow> obj \<Rightarrow> obj" where
  "awareness_object userId userInfo =
     (''userId'', (case map_of userInfo ''userId'' of Some v \<Rightarrow> v | None \<Rightarrow> userId))
       # filter (\<lambda>(k, v). k \<noteq> ''userId'') userInfo"

text \<open>The \<open>currentUsers\<close> array of the join handler, from the \<open>userAwareness\<close> map and the
  members of the room.\<close>

definition current_users ::
  "(socket_id \<rightharpoonup> obj) \<Rightarrow> socket_id list \<Rightarrow> socket_id \<Rightarrow> current_user list" where
  "current_users awareness room sid =
     filter (\<lambda>user. case cu_userId user of Some u \<Rightarrow> truthy u | None \<Rightarrow> False)
       (map (\<lambda>i. \<lparr>cu_socketId = i,
                  cu_userId = (case awareness i of
                                 Some aw \<Rightarrow> map_of aw ''userId'' | None \<Rightarrow> None),
                  cu_userInfo = awareness i\<rparr>)
          (filter (\<lambda>i. i \<noteq> sid) room))"

subsection \<open>Handlers\<close>

text \<open>\<open>io.on('connection')\<close>: a new socket, in the room of its own id.\<close>

definition on_connection :: "socket_id \<Rightarrow> relay_state \<Rightarrow> relay_state" where
  "on_connection sid st =
     st\<lparr>sockets := sockets st @ [(sid, \<lparr>sock_documentId = None, sock_userId = None\<rparr>)],
        adapter := (adapter st)(sid := set_add sid (adapter st sid))\<rparr>"

text \<open>\<open>socket.on('join-document')\<close>, statement by statement.\<close>

definition on_join_document ::
  "socket_id \<Rightarrow> string \<Rightarrow> string \<Rightarrow> obj \<Rightarrow> relay_state \<Rightarrow> relay_state" where
  "on_join_document sid documentId userId userInfo st =
     (let st1 = st\<lparr>adapter := (adapter st)(documentId := set_add sid (adapter st documentId))\<rparr>;
          st2 = st1\<lparr>sockets :=
                  AList.update sid \<lparr>sock_documentId = Some documentId, sock_userId = Some userId\<rparr>
                    (sockets st1)\<rparr>;
          st3 = (if documentRooms st2 documentId = None
                 then st2\<lparr>documentRooms := (documentRooms st2)(documentId \<mapsto> [])\<rparr>
                 else st2);
          st4 = (case documentRooms st3 documentId of
                   Some room \<Rightarrow> st3\<lparr>documentRooms := (documentRooms st3)(documentId \<mapsto> set_add sid room)\<rparr>
                 | None \<Rightarrow> st3);
          st5 = st4\<lparr>userAwareness := (userAwareness st4)(sid \<mapsto> awareness_object userId userInfo)\<rparr>;
          st6 = emit_to_room sid documentId (UserJoined sid userId userInfo) st5;
          currentUsers = (case documentRooms st6 documentId of
                            Some room \<Rightarrow> current_users (userAwareness st6) room sid
                          | None \<Rightarrow> [])
      in emit_to_socket sid (CurrentUsers currentUsers) st6)"

text \<open>\<open>socket.on('yjs-update')\<close> and \<open>socket.on('awareness-update')\<close>.\<close>

definition on_yjs_update :: "socket_id \<Rightarrow> string \<Rightarrow> nat list \<Rightarrow> relay_state \<Rightarrow> relay_state" where
  "on_yjs_update sid documentId update st = emit_to_room sid documentId (YjsUpdateMsg update) st"

definition on_awareness_update :: "socket_id \<Rightarrow> string \<Rightarrow> obj \<Rightarrow> relay_state \<Rightarrow> relay_state" where
  "on_awareness_update sid documentId awareness st =
     emit_to_room sid documentId (AwarenessUpdateMsg sid awareness) st"

text \<open>
  \<open>socket.on('disconnect')\<close> for a socket with properties \<open>props\<close>.  socket.io has taken the
  socket out of all its rooms before the handler runs.
\<close>

definition on_disconnect :: "socket_id \<Rightarrow> socket_props \<Rightarrow> relay_state \<Rightarrow> relay_state" where
  "on_disconnect sid props st =
     (let st1 = st\<lparr>adapter := (\<lambda>r. set_delete sid (adapter st r)),
                   sockets := AList.delete sid (sockets st)\<rparr>;
          st2 = (case sock_documentId props of
                   None \<Rightarrow> st1
                 | Some d \<Rightarrow>
                     if truthy d then
                       (let st1a =
                          (case documentRooms st1 d of
                             None \<Rightarrow> st1
                           | Some room \<Rightarrow>
                               (let room' = set_delete sid room in
                                if length room' = 0
                                then st1\<lparr>documentRooms := (documentRooms st1)(d := None)\<rparr>
                                else st1\<lparr>documentRooms := (documentRooms st1)(d \<mapsto> room')\<rparr>))
                        in emit_to_room sid d (UserLeft sid (sock_userId props)) st1a)
                     else st1)
      in st2\<lparr>userAwareness := (userAwareness st2)(sid := None)\<rparr>)"

text \<open>One event processed to completion.  Only a connected socket has handlers.\<close>

fun relay_step :: "relay_state \<Rightarrow> event \<Rightarrow> relay_state" where
  "relay_step st (Connection sid) =
     (case map_of (sockets st) sid of None \<Rightarrow> on_connection sid st | Some props \<Rightarrow> st)"
| "relay_step st (JoinDocument sid documentId userId userInfo) =
     (case map_of (sockets st) sid of
        None \<Rightarrow> st | Some props \<Rightarrow> on_join_document sid documentId userId userInfo st)"
| "relay_step st (YjsUpdate sid documentId update) =
     (case map_of (sockets st) sid of
        None \<Rightarrow> st | Some props \<Rightarrow> on_yjs_update sid documentId update st)"
| "relay_step st (AwarenessUpdate sid documentId awareness) =
     (case map_of (sockets st) sid of
        None \<Rightarrow> st | Some props \<Rightarrow> on_awareness_update sid documentId awareness st)"
| "relay_step st (Disconnect sid) =
     (case map_of (sockets st) sid of None \<Rightarrow> st | Some props \<Rightarrow> on_disconnect sid props st)"

definition relay_run :: "event list \<Rightarrow> relay_state" where
  "relay_run evs = foldl relay_step relay_init evs"

subsection \<open>Properties of a relay state and of a trace\<close>

text \<open>The connected sessions whose joined document is \<open>d\<close>.\<close>

definition joined_sessions :: "relay_state \<Rightarrow> string \<Rightarrow> socket_id list" where
  "joined_sessions st d =
     map fst (filter (\<lambda>(sid, props). sock_documentId props = Some d) (sockets st))"

text \<open>The room map has an entry for \<open>d\<close> exactly when a connected session is joined to \<open>d\<close>.\<close>

definition room_iff_joined :: "relay_state \<Rightarrow> string \<Rightarrow> bool" where
  "room_iff_joined st d = ((documentRooms st d \<noteq> None) = (joined_sessions st d \<noteq> []))"

text \<open>
  The discipline of a caller: document identifiers are not empty, and a session that has
  joined a document does not join another one (joining the same document again is allowed).
\<close>

fun event_ok :: "relay_state \<Rightarrow> event \<Rightarrow> bool" where
  "event_ok st (JoinDocument sid documentId userId userInfo) =
     (case map_of (sockets st) sid of
        None \<Rightarrow> True
      | Some props \<Rightarrow>
          truthy documentId
          \<and> (sock_documentId props = None \<or> sock_documentId props = Some documentId))"
| "event_ok st ev = True"

fun trace_ok :: "relay_state \<Rightarrow> event list \<Rightarrow> bool" where
  "trace_ok st [] = True"
| "trace_ok st (ev # evs) = (event_ok st ev \<and> trace_ok (relay_step st ev) evs)"

section \<open>Sync client: outbound throttle (lib/ySocketProvider.js)\<close>

text \<open>
  Time is a count of milliseconds.  \<open>updateTimeout\<close> is the pending timer of
  \<open>setupYjsListeners\<close>: the time it is due and the \<open>update\<close> its callback has captured.
  \<open>emitted\<close> are the \<open>yjs-update\<close> messages sent, each with the time of sending, the
  document identifier and the update.
\<close>

record provider_state =
  documentId_of :: string
  connected :: bool
  updateTimeout :: "(nat \<times> nat list) option"
  emitted :: "(nat \<times> string \<times> nat list) list"

text \<open>The callback given to \<open>setTimeout\<close>, run at its due time.  \<open>this.socket\<close> is set by
  the constructor before the listener is installed, so the test \<open>this.socket && this.connected\<close>
  is the test of \<open>connected\<close>.\<close>

definition timer_callback :: "nat \<Rightarrow> nat list \<Rightarrow> provider_state \<Rightarrow> provider_state" where
  "timer_callback due update st =
     (let st1 = (if connected st
                 then st\<lparr>emitted := emitted st @ [(due, documentId_of st, update)]\<rparr>
                 else st)
      in st1\<lparr>updateTimeout := None\<rparr>)"

text \<open>Time passes until \<open>t\<close>: a timer due by then fires.\<close>

definition advance :: "nat \<Rightarrow> provider_state \<Rightarrow> provider_state" where
  "advance t st =
     (case updateTimeout st of
        None \<Rightarrow> st
      | Some (due, update) \<Rightarrow> if due \<le> t then timer_callback due update st else st)"

text \<open>The listener \<open>ydoc.on('update')\<close>, called at time \<open>t\<close>.\<close>

definition on_update :: "nat \<Rightarrow> nat list \<Rightarrow> provider_state \<Rightarrow> provider_state" where
  "on_update t update st =
     (if updateTimeout st \<noteq> None then st
      else st\<lparr>updateTimeout := Some (t + 200, update)\<rparr>)"

text \<open>A sequence of local updates, each with the time it happens.\<close>

fun provider_run :: "(nat \<times> nat list) list \<Rightarrow> provider_state \<Rightarrow> provider_state" where
  "provider_run [] st = st"
| "provider_run ((t, update) # rest) st = provider_run rest (on_update t update (advance t st))"

section \<open>Notions used in the statements and proofs\<close>

text \<open>The pages of a worker's answer.\<close>

fun response_pages :: "worker_response \<Rightarrow> worker_page list" where
  "response_pages (Success ps s c) = ps"
| "response_pages (Failure err s c) = []"

subsection \<open>Invariant of the relay\<close>

text \<open>The connected sessions joined to \<open>d\<close>, as a set.\<close>

definition joined_set :: "relay_state \<Rightarrow> string \<Rightarrow> socket_id set" where
  "joined_set st d =
     {sid. \<exists>props. map_of (sockets st) sid = Some props \<and> sock_documentId props = Some d}"

text \<open>The entry of \<open>d\<close> in the room map is absent when no session is joined to \<open>d\<close>, and
  otherwise holds exactly the sessions joined to \<open>d\<close>.\<close>

definition rooms_agree :: "relay_state \<Rightarrow> string \<Rightarrow> bool" where
  "rooms_agree st d =
     ((documentRooms st d = None \<longrightarrow> joined_set st d = {})
      \<and> (\<forall>room. documentRooms st d = Some room \<longrightarrow> room \<noteq> [] \<and> set room = joined_set st d))"

definition relay_inv :: "relay_state \<Rightarrow> bool" where
  "relay_inv st =
     (distinct (map fst (sockets st))
      \<and> (\<forall>d. rooms_agree st d)
      \<and> (\<forall>sid props. map_of (sockets st) sid = Some props \<longrightarrow> sock_documentId props \<noteq> Some []))"

section \<open>Sample data for the instances\<close>

text \<open>A screenplay element node of type \<open>ty\<close> whose text has \<open>len\<close> characters.\<close>

definition sample_node :: "string \<Rightarrow> nat \<Rightarrow> pm_node" where
  "sample_node ty len =
     \<lparr>type_name = Some ''screenplay_element'',
      node_attrs = \<lparr>attrs_type = ty, attrs_dual = False\<rparr>,
      textContent = replicate len (CHR ''a'')\<rparr>"

text \<open>The element \<open>updatePages\<close> extracts from such a node at position \<open>p\<close>.\<close>

definition sample_element :: "string \<Rightarrow> nat \<Rightarrow> nat \<Rightarrow> element" where
  "sample_element ty len p =
     \<lparr>type = ty, content = replicate len (CHR ''a''), dual = False, pos = p\<rparr>"

section \<open>Double arithmetic: lemmas\<close>

lemma round_half_even_bounds: "\<lfloor>x\<rfloor> \<le> round_half_even x \<and> round_half_even x \<le> \<lfloor>x\<rfloor> + 1"
  by (simp add: round_half_even_def Let_def)

lemma round_half_even_of_int: "round_half_even (of_int k) = k"
  by (simp add: round_half_even_def Let_def)

lemma round_half_even_mono:
  assumes "x \<le> y"
  shows "round_half_even x \<le> round_half_even y"
proof (cases "\<lfloor>x\<rfloor> = \<lfloor>y\<rfloor>")
  case True
  have "x - of_int \<lfloor>x\<rfloor> \<le> y - of_int \<lfloor>y\<rfloor>" using assms True by simp
  then show ?thesis using True
    by (auto simp add: round_half_even_def Let_def)
next
  case False
  have "\<lfloor>x\<rfloor> \<le> \<lfloor>y\<rfloor>" using assms by (rule floor_mono)
  then have "\<lfloor>x\<rfloor> + 1 \<le> \<lfloor>y\<rfloor>" using False by linarith
  then show ?thesis
    using round_half_even_bounds[of x] round_half_even_bounds[of y] by linarith
qed

lemma round_half_even_nonneg: "0 \<le> x \<Longrightarrow> 0 \<le> round_half_even x"
  using round_half_even_mono[of 0 x] round_half_even_of_int[of 0] by simp

lemma ulp_pos: "0 < ulp x"
  by (simp add: ulp_def)

lemma to_double_zero: "to_double 0 = 0"
  by (simp add: to_double_def)

lemma to_double_nonneg: "0 \<le> x \<Longrightarrow> 0 \<le> to_double x"
  using ulp_pos[of "\<bar>x\<bar>"] round_half_even_nonneg[of "\<bar>x\<bar> / ulp \<bar>x\<bar>"]
  by (simp add: to_double_def less_imp_le)

text \<open>The binade of a number not below 1.\<close>

lemma binade:
  assumes "1 \<le> (x::rat)"
  shows "0 < floorlog 2 (nat \<lfloor>x\<rfloor>)"
    and "2 ^ (floorlog 2 (nat \<lfloor>x\<rfloor>) - 1) \<le> x"
    and "x < 2 ^ floorlog 2 (nat \<lfloor>x\<rfloor>)"
proof -
  let ?n = "floorlog 2 (nat \<lfloor>x\<rfloor>)"
  have f: "1 \<le> \<lfloor>x\<rfloor>" using assms by simp
  then have pos: "0 < nat \<lfloor>x\<rfloor>" by simp
  from floorlog_bounds[OF pos, of 2]
  have b: "2 ^ (?n - 1) \<le> nat \<lfloor>x\<rfloor>" "nat \<lfloor>x\<rfloor> < 2 ^ ?n" by simp_all
  show "0 < ?n" using pos by (simp add: floorlog_eq_zero_iff zero_less_iff_neq_zero)
  have "int (2 ^ (?n - 1)) \<le> int (nat \<lfloor>x\<rfloor>)" using b(1) by (simp only: of_nat_le_iff)
  then have "(2::int) ^ (?n - 1) \<le> \<lfloor>x\<rfloor>" using f by simp
  then have "of_int ((2::int) ^ (?n - 1)) \<le> (of_int \<lfloor>x\<rfloor> :: rat)" by (simp only: of_int_le_iff)
  then have "(2::rat) ^ (?n - 1) \<le> of_int \<lfloor>x\<rfloor>" by simp
  then show "2 ^ (?n - 1) \<le> x" using of_int_floor_le[of x] by linarith
  have "int (nat \<lfloor>x\<rfloor>) < int (2 ^ ?n)" using b(2) by (simp only: of_nat_less_iff)
  then have "\<lfloor>x\<rfloor> < (2::int) ^ ?n" using f by simp
  then have "\<lfloor>x\<rfloor> + 1 \<le> (2::int) ^ ?n" by simp
  then have "(of_int (\<lfloor>x\<rfloor> + 1) :: rat) \<le> of_int ((2::int) ^ ?n)" by (simp only: of_int_le_iff)
  then have "(of_int (\<lfloor>x\<rfloor> + 1) :: rat) \<le> 2 ^ ?n" by simp
  then show "x < 2 ^ ?n" using floor_correct[of x] by linarith
qed

lemma binade_unique:
  assumes "0 < n" "2 ^ (n - 1) \<le> x" "x < (2::rat) ^ n"
  shows "floorlog 2 (nat \<lfloor>x\<rfloor>) = n"
proof -
  have "(1::rat) \<le> 2 ^ (n - 1)" by (rule one_le_power) simp
  then have x1: "1 \<le> x" using assms(2) by linarith
  then have f: "1 \<le> \<lfloor>x\<rfloor>" by simp
  have "of_int ((2::int) ^ (n - 1)) \<le> x" using assms(2) by simp
  then have lo: "(2::int) ^ (n - 1) \<le> \<lfloor>x\<rfloor>" by (simp only: le_floor_iff)
  have "x < of_int ((2::int) ^ n)" using assms(3) by simp
  then have hi: "\<lfloor>x\<rfloor> < (2::int) ^ n" by (simp only: floor_less_iff)
  have "int (2 ^ (n - 1)) \<le> int (nat \<lfloor>x\<rfloor>)" using lo f by simp
  then have "(2::nat) ^ (n - 1) \<le> nat \<lfloor>x\<rfloor>" by (simp only: of_nat_le_iff)
  then have ge: "n \<le> floorlog 2 (nat \<lfloor>x\<rfloor>)" by (intro floorlog_geI) simp_all
  have "int (nat \<lfloor>x\<rfloor>) < int (2 ^ n)" using hi f by simp
  then have "nat \<lfloor>x\<rfloor> < (2::nat) ^ n" by (simp only: of_nat_less_iff)
  then have "floorlog 2 (nat \<lfloor>x\<rfloor>) \<le> n" by (intro floorlog_leI) simp_all
  then show ?thesis using ge by simp
qed


text \<open>Above 1, rounding is rounding of the 53-bit significand.\<close>

lemma to_double_ge1:
  assumes "1 \<le> x"
  shows "to_double x =
     of_int (round_half_even (x * 2 ^ 53 / 2 ^ floorlog 2 (nat \<lfloor>x\<rfloor>)))
       * 2 ^ floorlog 2 (nat \<lfloor>x\<rfloor>) / 2 ^ 53"
  using assms by (simp add: to_double_def ulp_def)

lemma significand_bounds:
  assumes "1 \<le> x"
  shows "2 ^ 52 \<le> round_half_even (x * 2 ^ 53 / 2 ^ floorlog 2 (nat \<lfloor>x\<rfloor>))"
    and "round_half_even (x * 2 ^ 53 / 2 ^ floorlog 2 (nat \<lfloor>x\<rfloor>)) \<le> 2 ^ 53"
proof -
  let ?n = "floorlog 2 (nat \<lfloor>x\<rfloor>)"
  let ?m = "x * 2 ^ 53 / 2 ^ ?n"
  note b = binade[OF assms]
  have p: "(2::rat) ^ ?n = 2 * 2 ^ (?n - 1)"
    using b(1) by (cases ?n) simp_all
  have "2 ^ 52 * (2::rat) ^ ?n \<le> x * 2 ^ 53" using b(2) p by simp
  then have lo: "2 ^ 52 \<le> ?m" by (simp add: le_divide_eq)
  have "x * 2 ^ 53 \<le> 2 ^ 53 * (2::rat) ^ ?n" using b(3) by simp
  then have hi: "?m \<le> 2 ^ 53" by (simp add: divide_le_eq)
  have "round_half_even (of_int (2 ^ 52)) \<le> round_half_even ?m"
    using lo by (intro round_half_even_mono) simp
  then show "2 ^ 52 \<le> round_half_even ?m" by (simp only: round_half_even_of_int)
  have "round_half_even ?m \<le> round_half_even (of_int (2 ^ 53))"
    using hi by (intro round_half_even_mono) simp
  then show "round_half_even ?m \<le> 2 ^ 53" by (simp only: round_half_even_of_int)
qed

lemma to_double_bounds:
  assumes "1 \<le> x"
  shows "2 ^ (floorlog 2 (nat \<lfloor>x\<rfloor>) - 1) \<le> to_double x"
    and "to_double x \<le> 2 ^ floorlog 2 (nat \<lfloor>x\<rfloor>)"
proof -
  let ?n = "floorlog 2 (nat \<lfloor>x\<rfloor>)"
  let ?k = "round_half_even (x * 2 ^ 53 / 2 ^ ?n)"
  note b = binade[OF assms]
  note s = significand_bounds[OF assms]
  have p: "(2::rat) ^ ?n = 2 * 2 ^ (?n - 1)"
    using b(1) by (cases ?n) simp_all
  have k1: "(2::rat) ^ 52 \<le> of_int ?k" using s(1) by (metis of_int_le_iff of_int_numeral of_int_power)
  have k2: "(of_int ?k :: rat) \<le> 2 ^ 53" using s(2) by (metis of_int_le_iff of_int_numeral of_int_power)
  have "2 ^ 52 * (2::rat) ^ ?n \<le> of_int ?k * 2 ^ ?n" using k1 by simp
  then show "2 ^ (?n - 1) \<le> to_double x"
    unfolding to_double_ge1[OF assms] using p by simp
  have "of_int ?k * (2::rat) ^ ?n \<le> 2 ^ 53 * 2 ^ ?n" using k2 by simp
  then show "to_double x \<le> 2 ^ ?n"
    unfolding to_double_ge1[OF assms] by simp
qed

lemma to_double_ge1_ge1: "1 \<le> x \<Longrightarrow> 1 \<le> to_double x"
proof -
  assume a: "1 \<le> x"
  have "(1::rat) \<le> 2 ^ (floorlog 2 (nat \<lfloor>x\<rfloor>) - 1)" by (rule one_le_power) simp
  then show ?thesis using to_double_bounds(1)[OF a] by linarith
qed


lemma to_double_mono:
  assumes "1 \<le> x" "x \<le> y"
  shows "to_double x \<le> to_double y"
proof -
  let ?nx = "floorlog 2 (nat \<lfloor>x\<rfloor>)"
  let ?ny = "floorlog 2 (nat \<lfloor>y\<rfloor>)"
  have y1: "1 \<le> y" using assms by linarith
  have "nat \<lfloor>x\<rfloor> \<le> nat \<lfloor>y\<rfloor>" using assms(2) by (simp add: floor_mono nat_mono)
  then have le: "?nx \<le> ?ny" by (rule floorlog_mono)
  show ?thesis
  proof (cases "?nx = ?ny")
    case True
    have "x * 2 ^ 53 / 2 ^ ?ny \<le> y * 2 ^ 53 / 2 ^ ?ny"
      using assms(2) by (simp add: divide_right_mono)
    then have "round_half_even (x * 2 ^ 53 / 2 ^ ?ny) \<le> round_half_even (y * 2 ^ 53 / 2 ^ ?ny)"
      by (rule round_half_even_mono)
    then have "(of_int (round_half_even (x * 2 ^ 53 / 2 ^ ?ny)) :: rat)
        \<le> of_int (round_half_even (y * 2 ^ 53 / 2 ^ ?ny))"
      by (simp only: of_int_le_iff)
    then show ?thesis
      unfolding to_double_ge1[OF assms(1)] to_double_ge1[OF y1] True
      by (simp add: divide_right_mono mult_right_mono)
  next
    case False
    then have "?nx \<le> ?ny - 1" using le by simp
    then have "(2::rat) ^ ?nx \<le> 2 ^ (?ny - 1)" by (intro power_increasing) simp_all
    then show ?thesis
      using to_double_bounds(2)[OF assms(1)] to_double_bounds(1)[OF y1] by linarith
  qed
qed

lemma to_double_idem:
  assumes "1 \<le> x"
  shows "to_double (to_double x) = to_double x"
proof -
  define p :: rat where "p = 2 ^ 53"
  have p0: "0 < p" by (simp add: p_def)
  let ?n = "floorlog 2 (nat \<lfloor>x\<rfloor>)"
  let ?k = "round_half_even (x * p / 2 ^ ?n)"
  let ?y = "to_double x"
  note b = binade[OF assms]
  note s = significand_bounds[OF assms, folded p_def]
  have y: "?y = of_int ?k * 2 ^ ?n / p" by (rule to_double_ge1[OF assms, folded p_def])
  have y1: "1 \<le> ?y" using assms by (rule to_double_ge1_ge1)
  note e = to_double_ge1[OF y1, folded p_def]
  show ?thesis
  proof (cases "?k = 2 ^ 53")
    case True
    then have "(of_int ?k :: rat) = p" by (simp add: p_def)
    then have yp: "?y = 2 ^ ?n" using y p0 by simp
    have fl: "floorlog 2 (nat \<lfloor>?y\<rfloor>) = Suc ?n"
      unfolding yp by (intro binade_unique) simp_all
    have "p = 2 * 2 ^ 52" by (simp add: p_def)
    then have "?y * p / 2 ^ Suc ?n = of_int (2 ^ 52)" unfolding yp by simp
    then have "to_double ?y = of_int (round_half_even (of_int (2 ^ 52))) * 2 ^ Suc ?n / p"
      using e fl by (simp only:)
    then have "to_double ?y = of_int (2 ^ 52) * 2 ^ Suc ?n / p"
      by (simp only: round_half_even_of_int)
    also have "\<dots> = 2 ^ ?n" by (simp add: p_def)
    finally show ?thesis using yp by simp
  next
    case False
    then have klt: "?k < 2 ^ 53" using s(2) by (simp add: p_def)
    then have "?k + 1 \<le> 2 ^ 53" by simp
    then have "(of_int (?k + 1) :: rat) \<le> of_int (2 ^ 53)" by (simp only: of_int_le_iff)
    then have "(of_int ?k :: rat) < p" by (simp add: p_def)
    then have "of_int ?k * (2::rat) ^ ?n < p * 2 ^ ?n" by simp
    then have hi: "?y < 2 ^ ?n" unfolding y using p0 by (simp add: divide_less_eq mult.commute)
    have fl: "floorlog 2 (nat \<lfloor>?y\<rfloor>) = ?n"
      using b(1) to_double_bounds(1)[OF assms] hi by (intro binade_unique)
    have "?y * p / 2 ^ ?n = of_int ?k" unfolding y using p0 by simp
    then have "to_double ?y = of_int (round_half_even (of_int ?k)) * 2 ^ ?n / p"
      using e fl by (simp only:)
    then show ?thesis using y by (simp only: round_half_even_of_int)
  qed
qed

lemma to_double_int:
  assumes "1 \<le> k" "k < 2 ^ 53"
  shows "to_double (of_int k) = of_int k"
proof -
  define p :: rat where "p = 2 ^ 53"
  have p0: "0 < p" by (simp add: p_def)
  let ?x = "of_int k :: rat"
  let ?n = "floorlog 2 (nat \<lfloor>?x\<rfloor>)"
  have x1: "1 \<le> ?x" using assms(1) by simp
  note b = binade[OF x1]
  have "?x < of_int (2 ^ 53)" using assms(2) by (simp only: of_int_less_iff)
  then have "?x < 2 ^ 53" by simp
  then have "(2::rat) ^ (?n - 1) < 2 ^ 53"
    using b(2) by linarith
  then have "?n - 1 < 53" by (simp only: power_strict_increasing_iff)
  then have n: "?n \<le> 53" by simp
  then have "53 - ?n + ?n = 53" by simp
  then have pe: "p = 2 ^ (53 - ?n) * 2 ^ ?n"
    unfolding p_def by (simp only: flip: power_add)
  have "?x * p / 2 ^ ?n = of_int (k * 2 ^ (53 - ?n))"
    by (subst pe) simp
  then have "round_half_even (?x * p / 2 ^ ?n) = k * 2 ^ (53 - ?n)"
    by (simp only: round_half_even_of_int)
  then have "to_double ?x = of_int (k * 2 ^ (53 - ?n)) * 2 ^ ?n / p"
    using to_double_ge1[OF x1, folded p_def] by (simp only:)
  also have "\<dots> = ?x * (2 ^ (53 - ?n) * 2 ^ ?n) / p" by simp
  also have "\<dots> = ?x" using p0 by (simp only: flip: pe) simp
  finally show ?thesis .
qed

lemma to_double_numeral:
  "numeral w < (2::int) ^ 53 \<Longrightarrow> to_double (numeral w) = numeral w"
  using to_double_int[of "numeral w"] by simp

section \<open>Pagination: lemmas\<close>

lemma js_add_total:
  assumes "is_total c" "is_height h"
  shows "is_height (js_add c h)" and "h \<le> js_add c h" and "c \<le> js_add c h"
proof -
  have c0: "0 \<le> c" and h1: "1 \<le> h" and hd: "to_double h = h"
    using assms by (auto simp add: is_total_def is_height_def)
  have s1: "1 \<le> c + h" using c0 h1 by linarith
  show "is_height (js_add c h)"
    using to_double_ge1_ge1[OF s1] to_double_idem[OF s1] by (simp add: is_height_def js_add_def)
  have "to_double h \<le> to_double (c + h)" using h1 c0 by (intro to_double_mono) simp_all
  then show "h \<le> js_add c h" using hd by (simp add: js_add_def)
  show "c \<le> js_add c h"
  proof (cases "c = 0")
    case True
    then show ?thesis using to_double_ge1_ge1[OF s1] by (simp add: js_add_def)
  next
    case False
    then have c1: "1 \<le> c" and cd: "to_double c = c"
      using assms(1) by (auto simp add: is_total_def is_height_def)
    have "to_double c \<le> to_double (c + h)" using c1 h1 by (intro to_double_mono) simp_all
    then show ?thesis using cd by (simp add: js_add_def)
  qed
qed

lemma js_add_zero: "is_height h \<Longrightarrow> js_add 0 h = h"
  by (simp add: js_add_def is_height_def)

lemma is_height_plus12: "0 \<le> a \<Longrightarrow> is_height (js_add a 12)"
proof -
  assume "0 \<le> a"
  then have "1 \<le> a + 12" by linarith
  then show ?thesis
    using to_double_ge1_ge1[of "a + 12"] to_double_idem[of "a + 12"]
    by (simp add: is_height_def js_add_def)
qed

lemma js_mul_nonneg: "0 \<le> a \<Longrightarrow> 0 \<le> b \<Longrightarrow> 0 \<le> js_mul a b"
  by (simp add: js_mul_def to_double_nonneg)

lemma lines_nonneg: "0 \<le> a \<Longrightarrow> (0::rat) \<le> of_int \<lceil>js_div a 60\<rceil>"
proof -
  assume "0 \<le> a"
  then have "0 \<le> js_div a 60" by (simp add: js_div_def to_double_nonneg)
  then have "0 \<le> \<lceil>js_div a 60\<rceil>" by (simp add: ceiling_mono[of 0, simplified])
  then show ?thesis by simp
qed

lemma calculateElementHeight_height: "is_height (calculateElementHeight n)"
  unfolding calculateElementHeight_def Let_def
  by (intro is_height_plus12 js_mul_nonneg lines_nonneg) (simp_all add: to_double_nonneg)

lemma worker_calculateElementHeight_height: "is_height (worker_calculateElementHeight e)"
  unfolding worker_calculateElementHeight_def Let_def
  by (intro is_height_plus12 js_mul_nonneg lines_nonneg) (simp_all add: to_double_nonneg)

lemma worker_loop_greedy:
  "(case worker_loop B es pp cur ch i of
      (pp', cur', ch', i') \<Rightarrow>
        (if length cur' > 0 then pp' @ [\<lparr>pageIndex = i', elements = cur'\<rparr>] else pp'))
   = pp @ number_pages i (greedy worker_calculateElementHeight B es cur ch)"
  by (induction es arbitrary: pp cur ch i) (simp_all add: Let_def)

lemma fallback_loop_greedy:
  "(case fallback_loop d np cur ch of
      (np', cur', ch') \<Rightarrow> (if length cur' > 0 then np' @ [cur'] else np'))
   = np @ greedy (\<lambda>en. calculateElementHeight (node en)) PAGE_HEIGHT (screenplay_entries d) cur ch"
  by (induction d arbitrary: np cur ch) (auto simp add: Let_def screenplay_entries_def)

lemma concat_greedy: "concat (greedy h B xs cur ch) = cur @ xs"
  by (induction xs arbitrary: cur ch) simp_all

lemma greedy_map:
  "greedy h B (map f xs) (map f cur) ch = map (map f) (greedy (\<lambda>x. h (f x)) B xs cur ch)"
proof (induction xs arbitrary: cur ch)
  case Nil
  show ?case by simp
next
  case (Cons x xs)
  show ?case
    using Cons.IH[of "[x]" "js_add 0 (h (f x))"] Cons.IH[of "cur @ [x]" "js_add ch (h (f x))"]
    by simp
qed

lemma map_elements_number_pages: "map elements (number_pages i ps) = ps"
  by (induction ps arbitrary: i) simp_all

lemma pageIndex_number_pages_ge: "p \<in> set (number_pages i ps) \<Longrightarrow> i \<le> pageIndex p"
  by (induction ps arbitrary: i) (auto dest: Suc_leD)

lemma sorted_number_pages: "sorted (map pageIndex (number_pages i ps))"
  by (induction ps arbitrary: i) (auto dest: pageIndex_number_pages_ge Suc_leD)

text \<open>A page under construction that is already over the budget is closed by the next
  element, whatever it is.\<close>

lemma greedy_over:
  assumes h: "\<And>y. is_height (h y)" and c: "is_height c" "B < c"
  shows "greedy h B ys [x] c = [x] # greedy h B ys [] 0"
proof (cases ys)
  case Nil
  then show ?thesis by simp
next
  case (Cons y ys')
  have "is_total c" using c(1) by (simp add: is_total_def)
  then have "c \<le> js_add c (h y)" using h[of y] by (rule js_add_total(3))
  then have "B < js_add c (h y)" using c(2) by linarith
  then show ?thesis using Cons by simp
qed

lemma greedy_oversized_head:
  assumes h: "\<And>y. is_height (h y)" and ch: "is_total ch" and big: "B < h x"
  shows "greedy h B (x # ys) cur ch =
           (if cur = [] then [] else [cur]) @ [x] # greedy h B ys [] 0"
proof -
  note a = js_add_total[OF ch h[of x]]
  have over: "B < js_add ch (h x)" using a(2) big by linarith
  have z: "js_add 0 (h x) = h x" using h[of x] by (rule js_add_zero)
  show ?thesis
  proof (cases "cur = []")
    case True
    then show ?thesis
      using greedy_over[of h "js_add ch (h x)" B ys x, OF h a(1) over] by simp
  next
    case False
    then show ?thesis
      using over z greedy_over[of h "h x" B ys x, OF h h[of x] big] by simp
  qed
qed

text \<open>Packing a prefix closes some pages and leaves a state from which the rest is packed.\<close>

lemma greedy_append:
  assumes h: "\<And>y. is_height (h y)" and ch: "is_total ch"
  shows "\<exists>ps cur' ch'. is_total ch' \<and> concat ps @ cur' = cur @ xs \<and>
           (\<forall>zs. greedy h B (xs @ zs) cur ch = ps @ greedy h B zs cur' ch')"
  using ch
proof (induction xs arbitrary: cur ch)
  case Nil
  show ?case by (rule exI[of _ "[]"], rule exI[of _ cur], rule exI[of _ ch]) (simp add: Nil)
next
  case (Cons x xs)
  show ?case
  proof (cases "js_add ch (h x) > B \<and> cur \<noteq> []")
    case True
    have "is_total (js_add 0 (h x))"
      using h[of x] by (simp add: js_add_zero is_total_def)
    from Cons.IH[OF this, of "[x]"]
    obtain ps cur' ch' where *: "is_total ch'" "concat ps @ cur' = [x] @ xs"
      "\<forall>zs. greedy h B (xs @ zs) [x] (js_add 0 (h x)) = ps @ greedy h B zs cur' ch'" by blast
    show ?thesis
      by (rule exI[of _ "cur # ps"], rule exI[of _ cur'], rule exI[of _ ch']) (use * True in simp)
  next
    case False
    have "is_total (js_add ch (h x))"
      using js_add_total(1)[OF Cons.prems h[of x]] by (simp add: is_total_def)
    from Cons.IH[OF this, of "cur @ [x]"]
    obtain ps cur' ch' where *: "is_total ch'" "concat ps @ cur' = (cur @ [x]) @ xs"
      "\<forall>zs. greedy h B (xs @ zs) (cur @ [x]) (js_add ch (h x)) = ps @ greedy h B zs cur' ch'"
      by blast
    show ?thesis
      by (rule exI[of _ "ps"], rule exI[of _ cur'], rule exI[of _ ch']) (use * False in auto)
  qed
qed

lemma greedy_oversized:
  assumes h: "\<And>y. is_height (h y)" and i: "i < length xs" and big: "B < h (xs ! i)"
  shows "\<exists>ps qs. greedy h B xs [] 0 = ps @ [[xs ! i]] @ qs \<and>
            concat ps = take i xs \<and> concat qs = drop (Suc i) xs"
proof -
  have xs: "xs = take i xs @ (xs ! i # drop (Suc i) xs)"
    using i by (simp add: id_take_nth_drop)
  have t0: "is_total 0" by (simp add: is_total_def)
  from greedy_append[where h=h and ch=0 and B=B and cur="[]" and xs="take i xs", OF h t0]
  obtain ps cur' ch' where *: "is_total ch'" "concat ps @ cur' = take i xs"
    "\<forall>zs. greedy h B (take i xs @ zs) [] 0 = ps @ greedy h B zs cur' ch'" by auto
  have "greedy h B xs [] 0 = ps @ greedy h B (xs ! i # drop (Suc i) xs) cur' ch'"
    using *(3) xs by metis
  also have "\<dots> = ps @ (if cur' = [] then [] else [cur']) @ [xs ! i] # greedy h B (drop (Suc i) xs) [] 0"
    using greedy_oversized_head[where h=h and B=B and x="xs ! i" and ch=ch' and cur=cur'
        and ys="drop (Suc i) xs", OF h *(1) big] by simp
  finally have "greedy h B xs [] 0 =
      (ps @ (if cur' = [] then [] else [cur'])) @ [[xs ! i]] @ greedy h B (drop (Suc i) xs) [] 0"
    by simp
  moreover have "concat (ps @ (if cur' = [] then [] else [cur'])) = take i xs"
    using *(2) by auto
  moreover have "concat (greedy h B (drop (Suc i) xs) [] 0) = drop (Suc i) xs"
    by (simp add: concat_greedy)
  ultimately show ?thesis by blast
qed

lemma entry_element_to_entry: "entry_element (to_entry e) = e"
  by (simp add: entry_element_def to_entry_def)

lemma extract_elements_entries: "extract_elements d = map entry_element (screenplay_entries d)"
  by (induction d) (auto simp add: screenplay_entries_def entry_element_def)

lemma worker_height_entry:
  "worker_calculateElementHeight (entry_element en) = calculateElementHeight (node en)"
  by (simp add: worker_calculateElementHeight_def calculateElementHeight_def entry_element_def)

lemma worker_onmessage_greedy:
  "worker_onmessage m =
     Success (number_pages (req_startIndex m div 15)
                (greedy worker_calculateElementHeight (req_pageHeight m) (req_elements m) [] 0))
       (req_startIndex m) (req_chunkSize m)"
proof -
  obtain pp cur ch i where w:
    "worker_loop (req_pageHeight m) (req_elements m) [] [] 0 (req_startIndex m div 15)
       = (pp, cur, ch, i)"
    using prod_cases4 by blast
  show ?thesis
    using worker_loop_greedy[of "req_pageHeight m" "req_elements m" "[]" "[]" 0
        "req_startIndex m div 15"]
    by (simp add: worker_onmessage_def w)
qed

lemma fallbackUpdatePages_greedy:
  "pages (fallbackUpdatePages (Some d) st) =
     greedy (\<lambda>en. calculateElementHeight (node en)) PAGE_HEIGHT (screenplay_entries d) [] 0"
proof -
  obtain np cur ch where f: "fallback_loop d [] [] 0 = (np, cur, ch)"
    using prod_cases3 by blast
  show ?thesis
    using fallback_loop_greedy[of d "[]" "[]" 0] by (simp add: fallbackUpdatePages_def f)
qed

lemma worker_pages_fallback:
  "greedy worker_calculateElementHeight PAGE_HEIGHT (extract_elements d) [] 0 =
   map (map entry_element) (pages (fallbackUpdatePages (Some d) st))"
  using greedy_map[of worker_calculateElementHeight PAGE_HEIGHT entry_element
      "screenplay_entries d" "[]" 0]
  by (simp add: fallbackUpdatePages_greedy extract_elements_entries worker_height_entry)

lemma dispatch_past_end:
  "length es \<le> i * cs \<Longrightarrow> dispatch es cs i ws = []"
proof (induction ws arbitrary: i)
  case Nil
  show ?case by simp
next
  case (Cons w ws)
  have "length es \<le> Suc i * cs" using Cons.prems by simp
  then have "dispatch es cs (Suc i) ws = []" by (rule Cons.IH)
  then show ?case using Cons.prems by (simp add: slice_def Let_def)
qed

lemma updatePages_one_chunk:
  assumes "extract_elements d \<noteq> []"
    and "length (extract_elements d)
           \<le> nat \<lceil>js_div (rat_of_nat (length (extract_elements d)))
                    (rat_of_nat (length (Responds # ws)))\<rceil>"
  shows "pages (updatePages (Responds # ws) (Some d) st) =
     map (map to_entry) (greedy worker_calculateElementHeight PAGE_HEIGHT (extract_elements d) [] 0)"
proof -
  let ?es = "extract_elements d"
  let ?cs = "nat \<lceil>js_div (rat_of_nat (length ?es)) (rat_of_nat (length (Responds # ws)))\<rceil>"
  let ?ps = "greedy worker_calculateElementHeight PAGE_HEIGHT ?es [] 0"
  have rest: "dispatch ?es ?cs (Suc 0) ws = []"
    using assms(2) by (intro dispatch_past_end) simp
  have ch: "slice ?es 0 (min ?cs (length ?es)) = ?es"
    using assms(2) by (simp add: slice_def min_def)
  have disp: "dispatch ?es ?cs 0 (Responds # ws) = [Fulfilled (number_pages 0 ?ps)]"
    using assms(1) rest ch
    by (simp add: Let_def worker_promise_def worker_onmessage_greedy del: length_Cons of_nat_Suc)
  have "map (\<lambda>page. map to_entry (elements page)) (number_pages 0 ?ps)
          = map (map to_entry) (map elements (number_pages 0 ?ps))"
    by simp
  then have fin: "map (\<lambda>page. map to_entry (elements page)) (number_pages 0 ?ps)
          = map (map to_entry) ?ps"
    by (simp only: map_elements_number_pages)
  have "pages (updatePages (Responds # ws) (Some d) st)
      = map (\<lambda>page. map to_entry (elements page))
          (sort_key pageIndex (combine_results (dispatch ?es ?cs 0 (Responds # ws))))"
    using assms(1) by (simp add: updatePages_def Let_def del: dispatch.simps length_Cons of_nat_Suc)
  then show ?thesis
    by (simp only: disp combine_results.simps append_Nil2 fin
        sort_key_id_if_sorted[OF sorted_number_pages])
qed

lemma height_eq_spec:
  "calculateElementHeight n = height_spec (attrs_type (node_attrs n)) (length (textContent n))"
  "worker_calculateElementHeight e = height_spec (type e) (length (content e))"
  by (simp_all add: calculateElementHeight_def worker_calculateElementHeight_def height_spec_def
      multiplier_spec_def Let_def)

lemma double_values:
  "\<lceil>js_div 2 60\<rceil> = 1" "\<lceil>js_div 10 60\<rceil> = 1" "\<lceil>js_div 180 60\<rceil> = 3"
  "\<lceil>js_div 1400 60\<rceil> = 24" "\<lceil>js_div 2800 60\<rceil> = 47"
  "js_mul 24 1 = 24" "js_mul 24 3 = 72" "js_mul 24 24 = 576" "js_mul 24 47 = 1128"
  "js_mul 72 1 = 72" "js_mul 576 1 = 576" "js_mul 1128 1 = 1128"
  "js_mul 24 (to_double (3 / 2)) = 36"
  "js_mul 72 (to_double (6 / 5)) = 6079859496950169 / 70368744177664"
  "js_add 24 12 = 36" "js_add 36 12 = 48" "js_add 576 12 = 588" "js_add 1128 12 = 1140"
  "js_add (6079859496950169 / 70368744177664) 12 = 6924284427082137 / 70368744177664"
  by code_simp+

lemma height_spec_values:
  "height_spec ''action'' 2 = 36"
  "height_spec ''action'' 1400 = 588"
  "height_spec ''action'' 2800 = 1140"
  "height_spec ''scene_heading'' 10 = 48"
  "height_spec ''character'' 180 = 6924284427082137 / 70368744177664"
  by (simp_all add: height_spec_def multiplier_spec_def double_values)

lemma sample_heights:
  "calculateElementHeight (sample_node ''action'' 2) = 36"
  "calculateElementHeight (sample_node ''action'' 1400) = 588"
  "calculateElementHeight (sample_node ''action'' 2800) = 1140"
  "calculateElementHeight (sample_node ''scene_heading'' 10) = 48"
  "worker_calculateElementHeight (sample_element ''action'' 2 p) = 36"
  "worker_calculateElementHeight (sample_element ''action'' 1400 p) = 588"
  "worker_calculateElementHeight (sample_element ''action'' 2800 p) = 1140"
  "worker_calculateElementHeight (sample_element ''scene_heading'' 10 p) = 48"
  by (simp_all add: height_eq_spec sample_node_def sample_element_def height_spec_values)

lemma sample_fields:
  "type_name (sample_node ty len) = Some ''screenplay_element''"
  "pos (sample_element ty len p) = p"
  "entry_pos (to_entry e) = pos e"
  by (simp_all add: sample_node_def sample_element_def to_entry_def)

lemma extract_sample:
  "extract_elements ((sample_node ty len, p) # rest) = sample_element ty len p # extract_elements rest"
  by (simp add: sample_node_def sample_element_def)

lemma js_add_numeral:
  "numeral v + numeral w < (2::int) ^ 53 \<Longrightarrow> js_add (numeral v) (numeral w) = numeral v + numeral w"
  "numeral w < (2::int) ^ 53 \<Longrightarrow> js_add 0 (numeral w) = numeral w"
proof -
  assume a: "numeral v + numeral w < (2::int) ^ 53"
  have "to_double (of_int (numeral v + numeral w)) = of_int (numeral v + numeral w)"
    using a by (intro to_double_int) simp_all
  then show "js_add (numeral v) (numeral w) = numeral v + numeral w"
    by (simp add: js_add_def)
next
  assume a: "numeral w < (2::int) ^ 53"
  have "to_double (of_int (numeral w)) = of_int (numeral w)"
    using a by (intro to_double_int) simp_all
  then show "js_add 0 (numeral w) = numeral w"
    by (simp add: js_add_def)
qed

lemma js_div_values:
  "js_div 4 2 = 2" "js_div 6 3 = 2" "js_div 2 2 = 1" "\<lceil>js_div 1 3\<rceil> = 1"
  by code_simp+

lemmas pagination_eval =
  updatePages_def fallbackUpdatePages_def Let_def slice_def worker_promise_def
  worker_onmessage_def PAGE_HEIGHT_def merge_by_startIndex_def
  extract_sample extract_elements.simps(1) sample_fields sample_heights
  js_add_numeral js_div_values

section \<open>Pagination: the claims\<close>

text \<open>
  C8.  The component's and the worker's height functions both compute
  \<open>24 * ceil (contentLength / 60) * multiplier + 12\<close> in double arithmetic, where the
  multiplier is \<open>1.5\<close> for \<open>scene_heading\<close>, \<open>1.2\<close> for \<open>character\<close> and \<open>1\<close> for every other
  type.  For a \<open>character\<close> element of 180 characters this is the double
  \<open>98.39999999999999\<close>, for a \<open>scene_heading\<close> of 10 characters it is 48.
\<close>

theorem calculateElementHeight_formula:
  "calculateElementHeight n = height_spec (attrs_type (node_attrs n)) (length (textContent n))
   \<and> worker_calculateElementHeight e = height_spec (type e) (length (content e))
   \<and> height_spec ''character'' 180 = 6924284427082137 / 70368744177664
   \<and> height_spec ''scene_heading'' 10 = 48"
  by (simp add: calculateElementHeight_def worker_calculateElementHeight_def height_spec_def
      multiplier_spec_def Let_def double_values)

text \<open>
  C7.  A worker given the whole element list as one chunk with start index 0 and the page
  height of the component answers with the pages of the sequential fallback; and whenever
  the chunk size covers the whole list, so that the first worker gets the only chunk, and
  that worker responds, \<open>updatePages\<close> sets the pages the fallback sets (a page entry
  compared by the element it stands for).
\<close>

theorem single_chunk_matches_fallback:
  "(\<exists>pgs. worker_onmessage \<lparr>req_elements = extract_elements d, req_startIndex = 0,
              req_chunkSize = length (extract_elements d), req_pageHeight = PAGE_HEIGHT\<rparr>
           = Success pgs 0 (length (extract_elements d))
         \<and> map elements pgs = map (map entry_element) (pages (fallbackUpdatePages (Some d) st)))
   \<and> (length (extract_elements d)
         \<le> nat \<lceil>js_div (rat_of_nat (length (extract_elements d)))
                       (rat_of_nat (length (Responds # ws)))\<rceil> \<longrightarrow>
       map (map entry_element) (pages (updatePages (Responds # ws) (Some d) st))
         = map (map entry_element) (pages (fallbackUpdatePages (Some d) st)))"
proof (intro conjI impI)
  show "\<exists>pgs. worker_onmessage \<lparr>req_elements = extract_elements d, req_startIndex = 0,
              req_chunkSize = length (extract_elements d), req_pageHeight = PAGE_HEIGHT\<rparr>
           = Success pgs 0 (length (extract_elements d))
         \<and> map elements pgs = map (map entry_element) (pages (fallbackUpdatePages (Some d) st))"
    by (simp add: worker_onmessage_greedy map_elements_number_pages worker_pages_fallback)
next
  assume one: "length (extract_elements d)
         \<le> nat \<lceil>js_div (rat_of_nat (length (extract_elements d)))
                       (rat_of_nat (length (Responds # ws)))\<rceil>"
  show "map (map entry_element) (pages (updatePages (Responds # ws) (Some d) st))
       = map (map entry_element) (pages (fallbackUpdatePages (Some d) st))"
  proof (cases "extract_elements d = []")
    case True
    then have "screenplay_entries d = []" by (simp add: extract_elements_entries)
    then show ?thesis using True
      by (simp add: updatePages_def fallbackUpdatePages_greedy)
  next
    case False
    have "map (map entry_element) (map (map to_entry) xss) = xss" for xss
      by (induction xss) (simp_all add: entry_element_to_entry comp_def)
    then show ?thesis
      by (simp only: updatePages_one_chunk[OF False one, of st] worker_pages_fallback[of d st])
  qed
qed

text \<open>C7, instance: three elements on two pages and a pool of one worker.\<close>

theorem single_chunk_matches_fallback_witness:
  "length (extract_elements [(sample_node ''action'' 1400, 0), (sample_node ''action'' 1400, 10),
                             (sample_node ''action'' 2, 20)])
     \<le> nat \<lceil>js_div (rat_of_nat (length (extract_elements
                   [(sample_node ''action'' 1400, 0), (sample_node ''action'' 1400, 10),
                    (sample_node ''action'' 2, 20)])))
               (rat_of_nat (length [Responds]))\<rceil>
   \<and> map (map entry_element)
       (pages (updatePages [Responds]
                 (Some [(sample_node ''action'' 1400, 0), (sample_node ''action'' 1400, 10),
                        (sample_node ''action'' 2, 20)])
                 \<lparr>pages = [], processingPages = False\<rparr>))
     = map (map entry_element)
         (pages (fallbackUpdatePages
                   (Some [(sample_node ''action'' 1400, 0), (sample_node ''action'' 1400, 10),
                          (sample_node ''action'' 2, 20)])
                   \<lparr>pages = [], processingPages = False\<rparr>))
   \<and> map (map entry_pos)
       (pages (fallbackUpdatePages
                 (Some [(sample_node ''action'' 1400, 0), (sample_node ''action'' 1400, 10),
                        (sample_node ''action'' 2, 20)])
                 \<lparr>pages = [], processingPages = False\<rparr>))
     = [[0], [10, 20]]"
proof -
  let ?d = "[(sample_node ''action'' 1400, 0), (sample_node ''action'' 1400, 10),
             (sample_node ''action'' 2, 20)]"
  have c: "js_div 3 1 = 3" by code_simp
  have h: "length (extract_elements ?d)
     \<le> nat \<lceil>js_div (rat_of_nat (length (extract_elements ?d)))
               (rat_of_nat (length [Responds]))\<rceil>"
    by (simp add: extract_sample c del: extract_elements.simps(2))
  have f: "map (map entry_pos)
       (pages (fallbackUpdatePages (Some ?d) \<lparr>pages = [], processingPages = False\<rparr>))
     = [[0], [10, 20]]"
    by (simp add: pagination_eval del: extract_elements.simps(2))
  show ?thesis
    using single_chunk_matches_fallback[of ?d "\<lparr>pages = [], processingPages = False\<rparr>" "[]"] h f
    by blast
qed

text \<open>
  C6.  An element whose own height exceeds the budget is alone on its page, with every
  element before it on the pages before and every element after it on the pages after: in
  the worker's answer for any budget, and in the pages the fallback sets for the component's
  page height.
\<close>

theorem oversized_element_own_page:
  "(i < length es \<and> B < worker_calculateElementHeight (es ! i) \<longrightarrow>
      (\<exists>pgs ps qs.
         worker_onmessage \<lparr>req_elements = es, req_startIndex = s, req_chunkSize = c,
                           req_pageHeight = B\<rparr> = Success pgs s c
         \<and> map elements pgs = ps @ [[es ! i]] @ qs
         \<and> concat ps = take i es \<and> concat qs = drop (Suc i) es))
   \<and> (j < length (screenplay_entries d)
        \<and> PAGE_HEIGHT < calculateElementHeight (node (screenplay_entries d ! j)) \<longrightarrow>
      (\<exists>ps qs.
         pages (fallbackUpdatePages (Some d) st) = ps @ [[screenplay_entries d ! j]] @ qs
         \<and> concat ps = take j (screenplay_entries d)
         \<and> concat qs = drop (Suc j) (screenplay_entries d)))"
proof (intro conjI impI)
  assume a: "i < length es \<and> B < worker_calculateElementHeight (es ! i)"
  from greedy_oversized[where h=worker_calculateElementHeight and B=B and xs=es and i=i,
      OF worker_calculateElementHeight_height] a
  obtain ps qs where "greedy worker_calculateElementHeight B es [] 0 = ps @ [[es ! i]] @ qs"
    "concat ps = take i es" "concat qs = drop (Suc i) es" by blast
  then show "\<exists>pgs ps qs.
         worker_onmessage \<lparr>req_elements = es, req_startIndex = s, req_chunkSize = c,
                           req_pageHeight = B\<rparr> = Success pgs s c
         \<and> map elements pgs = ps @ [[es ! i]] @ qs
         \<and> concat ps = take i es \<and> concat qs = drop (Suc i) es"
    by (simp add: worker_onmessage_greedy map_elements_number_pages) blast
next
  let ?h = "\<lambda>en. calculateElementHeight (node en)"
  assume a: "j < length (screenplay_entries d)
        \<and> PAGE_HEIGHT < calculateElementHeight (node (screenplay_entries d ! j))"
  have h: "\<And>y. is_height (?h y)" by (simp add: calculateElementHeight_height)
  from greedy_oversized[where h="?h" and B=PAGE_HEIGHT and xs="screenplay_entries d" and i=j,
      OF h] a
  show "\<exists>ps qs.
         pages (fallbackUpdatePages (Some d) st) = ps @ [[screenplay_entries d ! j]] @ qs
         \<and> concat ps = take j (screenplay_entries d)
         \<and> concat qs = drop (Suc j) (screenplay_entries d)"
    by (simp add: fallbackUpdatePages_greedy)
qed

theorem oversized_element_own_page_witness:
  "(1 < length [sample_element ''action'' 2 0, sample_element ''action'' 2800 1,
                sample_element ''action'' 2 2]
    \<and> 1122 < worker_calculateElementHeight (sample_element ''action'' 2800 1)
    \<and> (\<exists>pgs ps qs.
         worker_onmessage
           \<lparr>req_elements = [sample_element ''action'' 2 0, sample_element ''action'' 2800 1,
                            sample_element ''action'' 2 2],
            req_startIndex = 0, req_chunkSize = 3, req_pageHeight = 1122\<rparr> = Success pgs 0 3
         \<and> map elements pgs = ps @ [[sample_element ''action'' 2800 1]] @ qs
         \<and> concat ps = [sample_element ''action'' 2 0]
         \<and> concat qs = [sample_element ''action'' 2 2]))
   \<and> (PAGE_HEIGHT < calculateElementHeight (sample_node ''action'' 2800)
    \<and> (\<exists>ps qs.
         pages (fallbackUpdatePages
                  (Some [(sample_node ''action'' 2, 0), (sample_node ''action'' 2800, 1),
                         (sample_node ''action'' 2, 2)])
                  \<lparr>pages = [], processingPages = False\<rparr>)
           = ps @ [[\<lparr>node = sample_node ''action'' 2800, entry_pos = 1\<rparr>]] @ qs
         \<and> concat ps = [\<lparr>node = sample_node ''action'' 2, entry_pos = 0\<rparr>]
         \<and> concat qs = [\<lparr>node = sample_node ''action'' 2, entry_pos = 2\<rparr>]))"
proof -
  let ?es = "[sample_element ''action'' 2 0, sample_element ''action'' 2800 1,
              sample_element ''action'' 2 2]"
  let ?d = "[(sample_node ''action'' 2, 0), (sample_node ''action'' 2800, 1),
             (sample_node ''action'' 2, 2)]"
  have ents: "screenplay_entries ?d =
      [\<lparr>node = sample_node ''action'' 2, entry_pos = 0\<rparr>,
       \<lparr>node = sample_node ''action'' 2800, entry_pos = 1\<rparr>,
       \<lparr>node = sample_node ''action'' 2, entry_pos = 2\<rparr>]"
    by (simp add: screenplay_entries_def sample_node_def)
  show ?thesis
    using oversized_element_own_page[of 1 ?es 1122 0 3 1 ?d "\<lparr>pages = [], processingPages = False\<rparr>",
        unfolded ents]
    by (simp add: sample_heights PAGE_HEIGHT_def)
qed

text \<open>
  C2.  The claim is that the merge orders the chunk results by the chunks' start indices, so
  that the pages come out in document order.  On six elements and three responding workers,
  ordering by start index gives the pages in document order, and \<open>updatePages\<close>, which sorts
  by the page index the workers report, sets another order.
\<close>

theorem merge_not_by_startIndex:
  "map (\<lambda>page. map pos (elements page))
     (merge_by_startIndex
        [(0, response_pages (worker_onmessage
               \<lparr>req_elements = [sample_element ''action'' 1400 0, sample_element ''action'' 1400 10],
                req_startIndex = 0, req_chunkSize = 2, req_pageHeight = 1122\<rparr>)),
         (2, response_pages (worker_onmessage
               \<lparr>req_elements = [sample_element ''action'' 2 20, sample_element ''action'' 2 30],
                req_startIndex = 2, req_chunkSize = 2, req_pageHeight = 1122\<rparr>)),
         (4, response_pages (worker_onmessage
               \<lparr>req_elements = [sample_element ''action'' 2 40, sample_element ''action'' 2 50],
                req_startIndex = 4, req_chunkSize = 2, req_pageHeight = 1122\<rparr>))])
     = [[0], [10], [20, 30], [40, 50]]
   \<and> map (map entry_pos)
       (pages (updatePages [Responds, Responds, Responds]
        (Some [(sample_node ''action'' 1400, 0), (sample_node ''action'' 1400, 10),
               (sample_node ''action'' 2, 20), (sample_node ''action'' 2, 30),
               (sample_node ''action'' 2, 40), (sample_node ''action'' 2, 50)])
          \<lparr>pages = [], processingPages = False\<rparr>))
     = [[0], [20, 30], [40, 50], [10]]"
  by (simp add: pagination_eval del: extract_elements.simps(2))

text \<open>
  C1.  The claim is that \<open>updatePages\<close> keeps the elements in document order whenever all
  chunks succeed.  On four elements and two responding workers the pages it sets hold the
  elements at positions 0, 2, 3, 1, in that order; the fallback keeps 0, 1, 2, 3.
\<close>

theorem updatePages_two_workers_reorders:
  "map (map entry_pos)
     (pages (updatePages [Responds, Responds]
        (Some [(sample_node ''action'' 1400, 0), (sample_node ''action'' 1400, 1),
               (sample_node ''action'' 2, 2), (sample_node ''action'' 2, 3)])
        \<lparr>pages = [], processingPages = False\<rparr>))
     = [[0], [2, 3], [1]]
   \<and> map (map entry_pos)
       (pages (fallbackUpdatePages
          (Some [(sample_node ''action'' 1400, 0), (sample_node ''action'' 1400, 1),
                 (sample_node ''action'' 2, 2), (sample_node ''action'' 2, 3)])
          \<lparr>pages = [], processingPages = False\<rparr>))
     = [[0], [1, 2, 3]]"
  by (simp add: pagination_eval del: extract_elements.simps(2))

text \<open>
  C3.  The claim is that \<open>updatePages\<close> falls back to the sequential path when no chunk
  succeeds.  With one worker timing out and the other in error the pages it sets are empty,
  where the fallback gives one page with both elements.
\<close>

theorem updatePages_all_chunks_fail:
  "pages (updatePages [TimesOut, Errors]
        (Some [(sample_node ''action'' 2, 0), (sample_node ''action'' 2, 1)])
        \<lparr>pages = [], processingPages = False\<rparr>)
     = []
   \<and> map (map entry_pos)
       (pages (fallbackUpdatePages
          (Some [(sample_node ''action'' 2, 0), (sample_node ''action'' 2, 1)])
          \<lparr>pages = [], processingPages = False\<rparr>))
     = [[0, 1]]"
  by (simp add: pagination_eval del: extract_elements.simps(2))

section \<open>Session relay: lemmas\<close>

lemma set_joined_sessions:
  "distinct (map fst (sockets st)) \<Longrightarrow> set (joined_sessions st d) = joined_set st d"
  by (force simp add: joined_sessions_def joined_set_def)

lemma relay_inv_init: "relay_inv relay_init"
  by (simp add: relay_inv_def rooms_agree_def relay_init_def joined_set_def)

lemma on_connection_fields:
  "sockets (on_connection sid st) = sockets st @ [(sid, \<lparr>sock_documentId = None, sock_userId = None\<rparr>)]"
  "documentRooms (on_connection sid st) = documentRooms st"
  by (simp_all add: on_connection_def)

lemma on_join_document_fields:
  "sockets (on_join_document sid d u info st) =
     AList.update sid \<lparr>sock_documentId = Some d, sock_userId = Some u\<rparr> (sockets st)"
  "documentRooms (on_join_document sid d u info st) =
     (documentRooms st)(d \<mapsto> set_add sid (case documentRooms st d of None \<Rightarrow> [] | Some r \<Rightarrow> r))"
  by (simp_all add: on_join_document_def Let_def emit_to_room_def emit_to_socket_def
      split: option.splits)

lemma on_disconnect_fields:
  "sockets (on_disconnect sid props st) = AList.delete sid (sockets st)"
  "documentRooms (on_disconnect sid props st) =
     (case sock_documentId props of
        None \<Rightarrow> documentRooms st
      | Some d \<Rightarrow>
          if d = [] then documentRooms st
          else (case documentRooms st d of
                  None \<Rightarrow> documentRooms st
                | Some room \<Rightarrow>
                    if removeAll sid room = [] then (documentRooms st)(d := None)
                    else (documentRooms st)(d \<mapsto> removeAll sid room)))"
  by (simp_all add: on_disconnect_def Let_def emit_to_room_def truthy_def set_delete_def
      split: option.splits)

lemma on_update_fields:
  "sockets (on_yjs_update sid d u st) = sockets st"
  "documentRooms (on_yjs_update sid d u st) = documentRooms st"
  "sockets (on_awareness_update sid d a st) = sockets st"
  "documentRooms (on_awareness_update sid d a st) = documentRooms st"
  by (simp_all add: on_yjs_update_def on_awareness_update_def emit_to_room_def)

lemma relay_inv_cong:
  "sockets st' = sockets st \<Longrightarrow> documentRooms st' = documentRooms st \<Longrightarrow>
   relay_inv st' = relay_inv st"
  by (simp add: relay_inv_def rooms_agree_def joined_set_def)

lemma relay_inv_connection:
  assumes "relay_inv st" "map_of (sockets st) sid = None"
  shows "relay_inv (on_connection sid st)"
proof -
  have nin: "sid \<notin> fst ` set (sockets st)" using assms(2) by (simp add: map_of_eq_None_iff)
  have m: "map_of (sockets (on_connection sid st)) x =
      (if x = sid then Some \<lparr>sock_documentId = None, sock_userId = None\<rparr>
       else map_of (sockets st) x)" for x
    using assms(2) by (simp add: on_connection_fields map_add_def split: option.splits)
  have j: "joined_set (on_connection sid st) d = joined_set st d" for d
    using assms(2) by (auto simp add: joined_set_def m)
  show ?thesis
    using assms(1) nin unfolding relay_inv_def rooms_agree_def j m
    by (simp add: on_connection_fields)
qed

lemma relay_inv_join:
  assumes inv: "relay_inv st" and c: "map_of (sockets st) sid = Some props"
    and fresh: "sock_documentId props = None \<or> sock_documentId props = Some d"
    and d: "d \<noteq> []"
  shows "relay_inv (on_join_document sid d u info st)"
proof -
  let ?st' = "on_join_document sid d u info st"
  have m: "map_of (sockets ?st') =
      (map_of (sockets st))(sid \<mapsto> \<lparr>sock_documentId = Some d, sock_userId = Some u\<rparr>)"
    by (simp add: on_join_document_fields update_conv')
  have j: "joined_set ?st' d' = (if d' = d then insert sid (joined_set st d) else joined_set st d')" for d'
    using c fresh by (auto simp add: joined_set_def m)
  have dist: "distinct (map fst (sockets ?st'))"
    using inv by (simp add: relay_inv_def on_join_document_fields distinct_update)
  have rooms: "rooms_agree ?st' d'" for d'
  proof (cases "d' = d")
    case True
    have "rooms_agree st d"
      using inv by (simp add: relay_inv_def)
    then show ?thesis using True
      by (auto simp add: rooms_agree_def on_join_document_fields j set_add_def
          split: option.splits)
  next
    case False
    have "rooms_agree st d'"
      using inv by (simp add: relay_inv_def)
    then show ?thesis using False
      by (simp add: rooms_agree_def on_join_document_fields j)
  qed
  have ne: "\<forall>s p. map_of (sockets ?st') s = Some p \<longrightarrow> sock_documentId p \<noteq> Some []"
    using inv d by (auto simp add: relay_inv_def m)
  show ?thesis unfolding relay_inv_def using dist rooms ne by blast
qed

lemma relay_inv_disconnect:
  assumes inv: "relay_inv st" and c: "map_of (sockets st) sid = Some props"
  shows "relay_inv (on_disconnect sid props st)"
proof -
  let ?st' = "on_disconnect sid props st"
  have m: "map_of (sockets ?st') = (map_of (sockets st))(sid := None)"
    by (simp add: on_disconnect_fields delete_conv')
  have j: "joined_set ?st' d' = joined_set st d' - {sid}" for d'
    by (auto simp add: joined_set_def m)
  have only: "sid \<in> joined_set st d' \<longleftrightarrow> sock_documentId props = Some d'" for d'
    using c by (simp add: joined_set_def)
  have dist: "distinct (map fst (sockets ?st'))"
    using inv by (simp add: relay_inv_def on_disconnect_fields distinct_delete)
  have old: "rooms_agree st d'" for d'
    using inv by (simp add: relay_inv_def)
  have ne: "sock_documentId props \<noteq> Some []"
    using inv c by (simp add: relay_inv_def)
  have rooms: "rooms_agree ?st' d'" for d'
  proof (cases "sock_documentId props")
    case None
    then show ?thesis using old[of d'] only[of d']
      by (auto simp add: rooms_agree_def on_disconnect_fields j)
  next
    case (Some d)
    then have dne: "d \<noteq> []" using ne by auto
    show ?thesis
    proof (cases "d' = d")
      case True
      have "sid \<in> joined_set st d" using only[of d] Some by simp
      then obtain room where r: "documentRooms st d = Some room" "room \<noteq> []"
        "set room = joined_set st d"
        using old[of d] by (cases "documentRooms st d") (auto simp add: rooms_agree_def)
      show ?thesis
      proof (cases "removeAll sid room = []")
        case True
        then have "set room - {sid} = {}" by (metis set_removeAll set_empty)
        then show ?thesis using True \<open>d' = d\<close> Some dne r
          by (simp add: rooms_agree_def on_disconnect_fields j)
      next
        case False
        then show ?thesis using \<open>d' = d\<close> Some dne r
          by (simp add: rooms_agree_def on_disconnect_fields j)
      qed
    next
      case False
      then have "sid \<notin> joined_set st d'" using only[of d'] Some by simp
      then show ?thesis using old[of d'] False Some dne
        by (auto simp add: rooms_agree_def on_disconnect_fields j split: option.splits)
    qed
  qed
  have ne': "\<forall>s p. map_of (sockets ?st') s = Some p \<longrightarrow> sock_documentId p \<noteq> Some []"
    using inv by (auto simp add: relay_inv_def m)
  show ?thesis unfolding relay_inv_def using dist rooms ne' by blast
qed

lemma relay_inv_step:
  assumes "relay_inv st" "event_ok st ev"
  shows "relay_inv (relay_step st ev)"
proof (cases ev)
  case (Connection sid)
  then show ?thesis using assms relay_inv_connection
    by (auto split: option.splits)
next
  case (JoinDocument sid d u info)
  then show ?thesis using assms relay_inv_join
    by (auto simp add: truthy_def split: option.splits)
next
  case (YjsUpdate sid d u)
  then show ?thesis using assms
    by (auto simp add: relay_inv_cong[OF on_update_fields(1) on_update_fields(2)] split: option.splits)
next
  case (AwarenessUpdate sid d a)
  then show ?thesis using assms
    by (auto simp add: relay_inv_cong[OF on_update_fields(3) on_update_fields(4)] split: option.splits)
next
  case (Disconnect sid)
  then show ?thesis using assms relay_inv_disconnect
    by (auto split: option.splits)
qed

lemma relay_inv_trace:
  "relay_inv st \<Longrightarrow> trace_ok st evs \<Longrightarrow> relay_inv (foldl relay_step st evs)"
  by (induction evs arbitrary: st) (simp_all add: relay_inv_step)

lemma relay_inv_room_iff_joined: "relay_inv st \<Longrightarrow> room_iff_joined st d"
proof -
  assume inv: "relay_inv st"
  then have s: "set (joined_sessions st d) = joined_set st d"
    by (simp add: relay_inv_def set_joined_sessions)
  have "rooms_agree st d"
    using inv by (simp add: relay_inv_def)
  then show ?thesis
    unfolding room_iff_joined_def rooms_agree_def using s
    by (cases "documentRooms st d") (auto simp flip: set_empty)
qed

lemmas relay_eval =
  relay_run_def relay_init_def on_connection_def on_join_document_def on_disconnect_def
  on_yjs_update_def on_awareness_update_def emit_to_room_def emit_to_socket_def
  set_add_def set_delete_def truthy_def current_users_def awareness_object_def Let_def

lemma joined_set_disconnect:
  "joined_set (on_disconnect sid props st) d = joined_set st d - {sid}"
  by (auto simp add: joined_set_def on_disconnect_fields delete_conv')

section \<open>Session relay: the claims\<close>

text \<open>
  C9, as amended.  When document identifiers are not empty and no session joins a document
  other than the one it has already joined, then after every event the room map has an entry
  for a document identifier exactly when a connected session is joined to that document, and
  the disconnect of the only session joined to a document deletes the entry.
\<close>

theorem room_exists_iff_joined:
  assumes "trace_ok relay_init evs"
  shows "room_iff_joined (relay_run evs) d
    \<and> (joined_sessions (relay_run evs) d = [sid] \<longrightarrow>
         documentRooms (relay_step (relay_run evs) (Disconnect sid)) d = None)"
proof
  let ?st = "relay_run evs"
  have inv: "relay_inv ?st"
    using assms relay_inv_trace[OF relay_inv_init] by (simp add: relay_run_def)
  show "room_iff_joined ?st d" using inv by (rule relay_inv_room_iff_joined)
  show "joined_sessions ?st d = [sid] \<longrightarrow>
         documentRooms (relay_step ?st (Disconnect sid)) d = None"
  proof
    assume j: "joined_sessions ?st d = [sid]"
    have s: "set (joined_sessions ?st d) = joined_set ?st d"
      using inv by (simp add: relay_inv_def set_joined_sessions)
    then have js: "joined_set ?st d = {sid}" using j by simp
    then obtain props where c: "map_of (sockets ?st) sid = Some props"
      by (auto simp add: joined_set_def)
    have inv': "relay_inv (on_disconnect sid props ?st)"
      using inv c by (rule relay_inv_disconnect)
    have "joined_set (on_disconnect sid props ?st) d = {}"
      using js by (simp add: joined_set_disconnect)
    moreover have "rooms_agree (on_disconnect sid props ?st) d"
      using inv' by (simp add: relay_inv_def)
    ultimately have "documentRooms (on_disconnect sid props ?st) d = None"
      by (cases "documentRooms (on_disconnect sid props ?st) d")
        (auto simp add: rooms_agree_def)
    then show "documentRooms (relay_step ?st (Disconnect sid)) d = None"
      using c by simp
  qed
qed

text \<open>C9, instance: two sessions join \<open>doc1\<close>, the first joins it again and leaves, then
  the second leaves.\<close>

theorem room_exists_iff_joined_witness:
  "trace_ok relay_init
     [Connection ''s1'', Connection ''s2'', JoinDocument ''s1'' ''doc1'' ''alice'' [],
      JoinDocument ''s2'' ''doc1'' ''bob'' [], JoinDocument ''s1'' ''doc1'' ''alice'' [],
      Disconnect ''s1'']
   \<and> documentRooms (relay_run
        [Connection ''s1'', Connection ''s2'', JoinDocument ''s1'' ''doc1'' ''alice'' [],
         JoinDocument ''s2'' ''doc1'' ''bob'' [], JoinDocument ''s1'' ''doc1'' ''alice'' [],
         Disconnect ''s1'']) ''doc1'' = Some [''s2'']
   \<and> room_iff_joined (relay_run
        [Connection ''s1'', Connection ''s2'', JoinDocument ''s1'' ''doc1'' ''alice'' [],
         JoinDocument ''s2'' ''doc1'' ''bob'' [], JoinDocument ''s1'' ''doc1'' ''alice'' [],
         Disconnect ''s1'']) ''doc1''
   \<and> joined_sessions (relay_run
        [Connection ''s1'', Connection ''s2'', JoinDocument ''s1'' ''doc1'' ''alice'' [],
         JoinDocument ''s2'' ''doc1'' ''bob'' [], JoinDocument ''s1'' ''doc1'' ''alice'' [],
         Disconnect ''s1'']) ''doc1'' = [''s2'']
   \<and> documentRooms (relay_step (relay_run
        [Connection ''s1'', Connection ''s2'', JoinDocument ''s1'' ''doc1'' ''alice'' [],
         JoinDocument ''s2'' ''doc1'' ''bob'' [], JoinDocument ''s1'' ''doc1'' ''alice'' [],
         Disconnect ''s1'']) (Disconnect ''s2''))
        ''doc1'' = None"
proof -
  let ?evs = "[Connection ''s1'', Connection ''s2'', JoinDocument ''s1'' ''doc1'' ''alice'' [],
      JoinDocument ''s2'' ''doc1'' ''bob'' [], JoinDocument ''s1'' ''doc1'' ''alice'' [],
      Disconnect ''s1'']"
  have ok: "trace_ok relay_init ?evs"
    by (simp add: relay_eval)
  have j: "joined_sessions (relay_run ?evs) ''doc1'' = [''s2'']"
    by (simp add: relay_eval joined_sessions_def)
  have r: "documentRooms (relay_run ?evs) ''doc1'' = Some [''s2'']"
    by (simp add: relay_eval)
  show ?thesis
    using room_exists_iff_joined[OF ok, of "''doc1''" "''s2''"] ok j r by simp
qed

text \<open>
  C9 as stated fails in two ways.  A session that joins \<open>docA\<close>, then \<open>docB\<close>, then
  disconnects leaves the entry of \<open>docA\<close> in the room map, with no session connected.  A
  session that joins the empty document identifier and disconnects leaves the entry of the
  empty identifier, since the disconnect handler tests \<open>socket.documentId\<close> for truth.
\<close>

theorem rejoin_leaves_stale_room:
  "sockets (relay_run [Connection ''s1'', JoinDocument ''s1'' ''docA'' ''alice'' [],
                       JoinDocument ''s1'' ''docB'' ''alice'' [], Disconnect ''s1'']) = []
   \<and> documentRooms (relay_run [Connection ''s1'', JoinDocument ''s1'' ''docA'' ''alice'' [],
                       JoinDocument ''s1'' ''docB'' ''alice'' [], Disconnect ''s1'']) ''docA''
       = Some [''s1'']
   \<and> \<not> room_iff_joined (relay_run [Connection ''s1'', JoinDocument ''s1'' ''docA'' ''alice'' [],
                       JoinDocument ''s1'' ''docB'' ''alice'' [], Disconnect ''s1'']) ''docA''
   \<and> sockets (relay_run [Connection ''s1'', JoinDocument ''s1'' [] ''alice'' [],
                         Disconnect ''s1'']) = []
   \<and> documentRooms (relay_run [Connection ''s1'', JoinDocument ''s1'' [] ''alice'' [],
                         Disconnect ''s1'']) [] = Some [''s1'']
   \<and> \<not> room_iff_joined (relay_run [Connection ''s1'', JoinDocument ''s1'' [] ''alice'' [],
                         Disconnect ''s1'']) []"
  by (simp add: relay_eval room_iff_joined_def joined_sessions_def)




text \<open>
  C10.  A \<open>yjs-update\<close> or \<open>awareness-update\<close> from a connected session is delivered to every
  member of the room named in the payload except the sender, and changes nothing else; there
  is no condition on the rooms the sender has joined.
\<close>

theorem update_broadcast_unchecked:
  assumes "map_of (sockets st) sid = Some props"
  shows "relay_step st (YjsUpdate sid documentId update)
           = st\<lparr>outbox := outbox st
                   @ map (\<lambda>r. (r, YjsUpdateMsg update))
                       (filter (\<lambda>r. r \<noteq> sid) (adapter st documentId))\<rparr>
       \<and> relay_step st (AwarenessUpdate sid documentId awareness)
           = st\<lparr>outbox := outbox st
                   @ map (\<lambda>r. (r, AwarenessUpdateMsg sid awareness))
                       (filter (\<lambda>r. r \<noteq> sid) (adapter st documentId))\<rparr>"
  using assms by (simp add: on_yjs_update_def on_awareness_update_def emit_to_room_def)

text \<open>C10, instance: \<open>s2\<close> has joined no document and its updates for \<open>doc1\<close> reach
  \<open>s1\<close>.\<close>

theorem update_broadcast_unchecked_witness:
  "map_of (sockets (relay_run [Connection ''s1'', Connection ''s2'',
        JoinDocument ''s1'' ''doc1'' ''alice'' []])) ''s2''
     = Some \<lparr>sock_documentId = None, sock_userId = None\<rparr>
   \<and> ''s2'' \<notin> set (adapter (relay_run [Connection ''s1'', Connection ''s2'',
        JoinDocument ''s1'' ''doc1'' ''alice'' []]) ''doc1'')
   \<and> outbox (relay_step (relay_run [Connection ''s1'', Connection ''s2'',
        JoinDocument ''s1'' ''doc1'' ''alice'' []]) (YjsUpdate ''s2'' ''doc1'' [1, 2, 3]))
       = [(''s1'', CurrentUsers []), (''s1'', YjsUpdateMsg [1, 2, 3])]
   \<and> outbox (relay_step (relay_run [Connection ''s1'', Connection ''s2'',
        JoinDocument ''s1'' ''doc1'' ''alice'' []])
          (AwarenessUpdate ''s2'' ''doc1'' [(''cursor'', ''7'')]))
       = [(''s1'', CurrentUsers []), (''s1'', AwarenessUpdateMsg ''s2'' [(''cursor'', ''7'')])]"
proof -
  let ?st = "relay_run [Connection ''s1'', Connection ''s2'', JoinDocument ''s1'' ''doc1'' ''alice'' []]"
  have c: "map_of (sockets ?st) ''s2'' = Some \<lparr>sock_documentId = None, sock_userId = None\<rparr>"
    by (simp add: relay_eval)
  have a: "adapter ?st ''doc1'' = [''s1'']" by (simp add: relay_eval)
  have ob: "outbox ?st = [(''s1'', CurrentUsers [])]" by (simp add: relay_eval)
  show ?thesis
    using update_broadcast_unchecked[OF c, of "''doc1''" "[1, 2, 3]" "[(''cursor'', ''7'')]"] c a ob
    by simp
qed


section \<open>Outbound throttle: the claim\<close>

text \<open>
  C4.  The claim is that the payload sent at timer expiry is the latest delta of the window.
  Of three updates within one window the one sent is the first, not the latest, and the two
  later ones are not sent afterwards either.
\<close>

theorem throttle_sends_first_not_latest:
  "map (\<lambda>(t, d, u). u) (emitted (advance 200 (provider_run [(0, [1]), (50, [2]), (100, [3])]
       \<lparr>documentId_of = ''doc1'', connected = True, updateTimeout = None, emitted = []\<rparr>)))
     = [[1]]
   \<and> map (\<lambda>(t, d, u). u) (emitted (advance 200 (provider_run [(0, [1]), (50, [2]), (100, [3])]
       \<lparr>documentId_of = ''doc1'', connected = True, updateTimeout = None, emitted = []\<rparr>)))
     \<noteq> [[3]]
   \<and> map (\<lambda>(t, d, u). u) (emitted (advance 10000 (advance 200
       (provider_run [(0, [1]), (50, [2]), (100, [3])]
          \<lparr>documentId_of = ''doc1'', connected = True, updateTimeout = None, emitted = []\<rparr>))))
     = [[1]]"
  by (simp add: advance_def on_update_def timer_callback_def)

end
